(* ===== verification/Budu_Prelude.thy ===== *)
theory Budu_Prelude
  imports Main "HOL-Library.Word" "HOL-Library.Sublist"
begin

unbundle bit_operations_syntax

text \<open>
  Shared vocabulary of the development: the names of Rust's integer types, the saturating and
  checked arithmetic of its standard library, and the parsing (\<open>str::parse\<close>) and printing
  (\<open>to_string\<close>) of decimal integers. A Rust \<open>str\<close> or \<open>[u8]\<close> is the list of its bytes: a HOL
  \<^typ>\<open>char\<close> is exactly one byte.
\<close>

named_theorems str_simps \<open>characteristic equations of the string functions\<close>
named_theorems frame_simps \<open>what a stage leaves unchanged in the request context\<close>

type_synonym bytes = string
type_synonym u16 = "16 word"
type_synonym u32 = "32 word"
type_synonym u64 = "64 word"

section \<open>Bytes\<close>

definition bv :: "char \<Rightarrow> nat" where
  "bv c = of_char c"

lemma bv_less [simp]: "bv c < 256"
  by (simp add: bv_def)

lemma bv_inject: "bv c = bv d \<longleftrightarrow> c = d"
  by (simp add: bv_def)

lemma bv_char_of: "n < 256 \<Longrightarrow> bv (char_of n) = n"
  by (simp add: bv_def)

lemma char_of_bv [simp]: "char_of (bv c) = c"
  by (simp add: bv_def)

section \<open>Saturating and checked arithmetic\<close>

definition saturating_add :: "'a::len word \<Rightarrow> 'a word \<Rightarrow> 'a word" where
  "saturating_add a b = (if unat a + unat b < 2 ^ LENGTH('a) then a + b else - 1)"

definition saturating_mul :: "'a::len word \<Rightarrow> 'a word \<Rightarrow> 'a word" where
  "saturating_mul a b = (if unat a * unat b < 2 ^ LENGTH('a) then a * b else - 1)"

definition checked_mul :: "'a::len word \<Rightarrow> 'a word \<Rightarrow> 'a word option" where
  "checked_mul a b = (if unat a * unat b < 2 ^ LENGTH('a) then Some (a * b) else None)"

lemma unat_minus_1: "unat (- 1 :: 'a::len word) = 2 ^ LENGTH('a) - 1"
  by (metis mask_eq_exp_minus_1 unsigned_minus_1_eq_mask)

lemma unat_saturating_add:
  "unat (saturating_add a b) = min (unat a + unat b) (2 ^ LENGTH('a) - 1)"
  for a b :: "'a::len word"
  by (auto simp: saturating_add_def unat_word_ariths unat_minus_1 min_def)

lemma unat_saturating_mul:
  "unat (saturating_mul a b) = min (unat a * unat b) (2 ^ LENGTH('a) - 1)"
  for a b :: "'a::len word"
proof (cases "unat a * unat b < 2 ^ LENGTH('a)")
  case True
  then show ?thesis
    by (simp add: saturating_mul_def unat_word_ariths)
next
  case False
  then have "2 ^ LENGTH('a) - 1 \<le> unat a * unat b"
    by linarith
  with False show ?thesis
    by (simp add: saturating_mul_def unat_minus_1 min_absorb2)
qed

lemma checked_mul_Some:
  "checked_mul a b = Some c \<longleftrightarrow> unat c = unat a * unat b"
  for a b c :: "'a::len word"
proof
  assume "checked_mul a b = Some c"
  then show "unat c = unat a * unat b"
    by (auto simp: checked_mul_def unat_word_ariths split: if_splits)
next
  assume c: "unat c = unat a * unat b"
  then have "unat a * unat b < 2 ^ LENGTH('a)"
    by (metis unsigned_less)
  moreover from this c have "a * b = c"
    by (metis mod_less unat_word_ariths(2) word_unat_eq_iff)
  ultimately show "checked_mul a b = Some c"
    by (simp add: checked_mul_def)
qed

lemma saturating_add_ge: "a \<le> saturating_add a b"
  for a b :: "'a::len word"
proof -
  have "unat a \<le> 2 ^ LENGTH('a) - 1"
    using unsigned_less [of a, where ?'a = nat] by linarith
  then show ?thesis
    by (simp add: word_le_nat_alt unat_saturating_add)
qed

lemma unat_max: "unat (max a b) = max (unat a) (unat b)"
  for a b :: "'a::len word"
  by (simp add: max_def word_le_nat_alt)

section \<open>Filter-map\<close>

lemma set_map_filter_iff: "set (List.map_filter f xs) = {y. \<exists>x\<in>set xs. f x = Some y}"
  by (auto simp: List.map_filter_def image_iff) (metis option.sel option.distinct(1))

lemma map_filter_append [simp]:
  "List.map_filter f (xs @ ys) = List.map_filter f xs @ List.map_filter f ys"
  by (simp add: List.map_filter_def)

lemma find_upt: "k < n \<Longrightarrow> P k \<Longrightarrow> (\<And>i. i < k \<Longrightarrow> \<not> P i) \<Longrightarrow> find P [0..<n] = Some k"
  by (auto simp: find_Some_iff intro!: exI [of _ k])

section \<open>Decimal integers\<close>

text \<open>\<open>digit_val\<close> is the value of an ASCII decimal digit; \<open>read_digits\<close> reads a run of them.\<close>

definition digit_val :: "char \<Rightarrow> nat option" where
  "digit_val c = (if 48 \<le> bv c \<and> bv c \<le> 57 then Some (bv c - 48) else None)"

fun read_digits :: "nat \<Rightarrow> string \<Rightarrow> nat option" where
  "read_digits acc [] = Some acc"
| "read_digits acc (c # cs) =
     (case digit_val c of None \<Rightarrow> None | Some d \<Rightarrow> read_digits (10 * acc + d) cs)"

text \<open>
  \<open>parse_unsigned max\<close> is \<open>str::parse\<close> at an unsigned type whose largest value is \<open>max\<close>: one
  leading plus sign is accepted when something follows it, an empty string, a foreign byte or an
  overflow is an error. \<open>parse_signed lo hi\<close> is the same at a signed type.
\<close>

definition parse_unsigned :: "nat \<Rightarrow> string \<Rightarrow> nat option" where
  "parse_unsigned mx s =
     (let ds = (case s of c # r \<Rightarrow> if c = CHR ''+'' \<and> r \<noteq> [] then r else s | [] \<Rightarrow> [])
      in if ds = [] then None
         else case read_digits 0 ds of
                None \<Rightarrow> None
              | Some n \<Rightarrow> if n \<le> mx then Some n else None)"

definition parse_signed :: "int \<Rightarrow> int \<Rightarrow> string \<Rightarrow> int option" where
  "parse_signed lo hi s =
     (let (neg, ds) = (case s of
            c # r \<Rightarrow> if c = CHR ''+'' \<and> r \<noteq> [] then (False, r)
                     else if c = CHR ''-'' \<and> r \<noteq> [] then (True, r) else (False, s)
          | [] \<Rightarrow> (False, []))
      in if ds = [] then None
         else case read_digits 0 ds of
                None \<Rightarrow> None
              | Some n \<Rightarrow>
                  let v = (if neg then - int n else int n)
                  in if lo \<le> v \<and> v \<le> hi then Some v else None)"

abbreviation parse_u8 :: "string \<Rightarrow> nat option" where
  "parse_u8 \<equiv> parse_unsigned (2 ^ 8 - 1)"

abbreviation parse_u16 :: "string \<Rightarrow> nat option" where
  "parse_u16 \<equiv> parse_unsigned (2 ^ 16 - 1)"

abbreviation parse_u32 :: "string \<Rightarrow> nat option" where
  "parse_u32 \<equiv> parse_unsigned (2 ^ 32 - 1)"

abbreviation parse_u64 :: "string \<Rightarrow> nat option" where
  "parse_u64 \<equiv> parse_unsigned (2 ^ 64 - 1)"

abbreviation parse_i16 :: "string \<Rightarrow> int option" where
  "parse_i16 \<equiv> parse_signed (- (2 ^ 15)) (2 ^ 15 - 1)"

abbreviation parse_i64 :: "string \<Rightarrow> int option" where
  "parse_i64 \<equiv> parse_signed (- (2 ^ 63)) (2 ^ 63 - 1)"

fun show_nat :: "nat \<Rightarrow> string" where
  "show_nat n = (if n < 10 then [char_of (48 + n)] else show_nat (n div 10) @ [char_of (48 + n mod 10)])"

declare show_nat.simps [simp del]

lemma digit_val_char_of [simp]: "d < 10 \<Longrightarrow> digit_val (char_of (48 + d)) = Some d"
  by (simp add: digit_val_def bv_char_of)

lemma digit_val_less: "digit_val c = Some d \<Longrightarrow> d < 10"
  by (auto simp: digit_val_def split: if_splits)

lemma read_digits_append:
  "read_digits acc (xs @ ys) =
     (case read_digits acc xs of None \<Rightarrow> None | Some a \<Rightarrow> read_digits a ys)"
  by (induction acc xs rule: read_digits.induct) (auto split: option.splits)

lemma read_digits_Some_iff:
  "(\<exists>n. read_digits acc s = Some n) \<longleftrightarrow> (\<forall>c\<in>set s. digit_val c \<noteq> None)"
  by (induction acc s rule: read_digits.induct) (auto split: option.splits)

lemma read_digits_show_nat: "read_digits 0 (show_nat n) = Some n"
proof (induction n rule: show_nat.induct)
  case (1 n)
  then show ?case
    by (subst show_nat.simps) (auto simp: read_digits_append)
qed

lemma show_nat_nonempty [simp]: "show_nat n \<noteq> []"
  by (subst show_nat.simps) simp

lemma show_nat_digits: "c \<in> set (show_nat n) \<Longrightarrow> digit_val c \<noteq> None"
  using read_digits_show_nat read_digits_Some_iff by blast

lemma show_nat_inject: "show_nat m = show_nat n \<longleftrightarrow> m = n"
  by (metis option.inject read_digits_show_nat)

lemma sign_not_digit [simp]: "digit_val (CHR ''+'') = None" "digit_val (CHR ''-'') = None"
  by (simp_all add: digit_val_def bv_def)

lemma show_nat_no_sign: "show_nat n = c # r \<Longrightarrow> c \<noteq> CHR ''+'' \<and> c \<noteq> CHR ''-''"
  using show_nat_digits [of c n] by (auto simp del: sign_not_digit simp: digit_val_def bv_def)

lemma parse_unsigned_show_nat:
  "parse_unsigned mx (show_nat n) = (if n \<le> mx then Some n else None)"
  by (cases "show_nat n")
     (use show_nat_no_sign read_digits_show_nat [of n] in \<open>auto simp: parse_unsigned_def\<close>)

lemma parse_signed_show_nat:
  "lo \<le> 0 \<Longrightarrow> parse_signed lo hi (show_nat n) = (if int n \<le> hi then Some (int n) else None)"
  by (cases "show_nat n")
     (use show_nat_no_sign read_digits_show_nat [of n] in \<open>auto simp: parse_signed_def Let_def\<close>)

lemma parse_unsigned_bound: "parse_unsigned mx s = Some n \<Longrightarrow> n \<le> mx"
  by (auto simp: parse_unsigned_def Let_def split: if_splits option.splits)

lemma parse_signed_bound: "parse_signed lo hi s = Some v \<Longrightarrow> lo \<le> v \<and> v \<le> hi"
  by (auto simp: parse_signed_def Let_def split: if_splits option.splits prod.splits)

text \<open>Closed numbers are printed by the simplifier with \<open>show_nat_eval\<close>.\<close>

lemma digit_chars:
  "char_of (48 :: nat) = CHR ''0''"
  "char_of (49 :: nat) = CHR ''1''"
  "char_of (50 :: nat) = CHR ''2''"
  "char_of (51 :: nat) = CHR ''3''"
  "char_of (52 :: nat) = CHR ''4''"
  "char_of (53 :: nat) = CHR ''5''"
  "char_of (54 :: nat) = CHR ''6''"
  "char_of (55 :: nat) = CHR ''7''"
  "char_of (56 :: nat) = CHR ''8''"
  "char_of (57 :: nat) = CHR ''9''"
  by code_simp+

lemmas show_nat_eval = show_nat.simps digit_chars

end
