(* ===== verification/Rust_Str.thy ===== *)
theory Rust_Str
  imports Budu_Prelude
begin

text \<open>
  The parts of Rust's \<open>str\<close>, \<open>char\<close> and slice library the sources call, on the UTF-8 bytes of the
  string. Every separator the sources search for is ASCII, so working on bytes is the same as
  working on code points; \<open>char::is_whitespace\<close> also accepts the white space outside ASCII, which
  \<open>ws_len\<close> recognises by its UTF-8 encoding. \<open>from_utf8_lossy\<close> replaces each maximal invalid
  sequence by U+FFFD, as the standard library does.
\<close>

section \<open>ASCII classes and case\<close>

definition is_ascii :: "char \<Rightarrow> bool" where
  "is_ascii c \<longleftrightarrow> bv c < 128"

definition is_ascii_digit :: "char \<Rightarrow> bool" where
  "is_ascii_digit c \<longleftrightarrow> 48 \<le> bv c \<and> bv c \<le> 57"

definition is_ascii_upper :: "char \<Rightarrow> bool" where
  "is_ascii_upper c \<longleftrightarrow> 65 \<le> bv c \<and> bv c \<le> 90"

definition is_ascii_lower :: "char \<Rightarrow> bool" where
  "is_ascii_lower c \<longleftrightarrow> 97 \<le> bv c \<and> bv c \<le> 122"

definition is_ascii_alphanumeric :: "char \<Rightarrow> bool" where
  "is_ascii_alphanumeric c \<longleftrightarrow> is_ascii_digit c \<or> is_ascii_upper c \<or> is_ascii_lower c"

definition lower_char :: "char \<Rightarrow> char" where
  "lower_char c = (if is_ascii_upper c then char_of (bv c + 32) else c)"

definition upper_char :: "char \<Rightarrow> char" where
  "upper_char c = (if is_ascii_lower c then char_of (bv c - 32) else c)"

abbreviation to_ascii_lowercase :: "string \<Rightarrow> string" where
  "to_ascii_lowercase \<equiv> map lower_char"

abbreviation to_ascii_uppercase :: "string \<Rightarrow> string" where
  "to_ascii_uppercase \<equiv> map upper_char"

definition eq_ignore_ascii_case :: "string \<Rightarrow> string \<Rightarrow> bool" where
  "eq_ignore_ascii_case a b \<longleftrightarrow> to_ascii_lowercase a = to_ascii_lowercase b"

lemma lower_char_idem [simp]: "lower_char (lower_char c) = lower_char c"
  by (simp add: lower_char_def is_ascii_upper_def bv_char_of)

lemma upper_char_not_lower: "\<not> is_ascii_lower (upper_char c)"
proof (cases "is_ascii_lower c")
  case True
  then have "bv (char_of (bv c - 32)) = bv c - 32"
    using bv_less [of c] by (intro bv_char_of) linarith
  with True show ?thesis by (auto simp: upper_char_def is_ascii_lower_def)
qed (simp add: upper_char_def)

lemma upper_char_idem [simp]: "upper_char (upper_char c) = upper_char c"
  using upper_char_not_lower [of c] by (simp add: upper_char_def [of "upper_char c"])

lemma lower_char_not_upper: "\<not> is_ascii_upper (lower_char c)"
  by (simp add: lower_char_def is_ascii_upper_def bv_char_of)

lemma lower_upper_char: "lower_char (upper_char c) = lower_char c"
proof (cases "is_ascii_lower c")
  case True
  then have "bv (char_of (bv c - 32)) = bv c - 32"
    using bv_less [of c] by (intro bv_char_of) linarith
  with True show ?thesis
    by (auto simp: upper_char_def lower_char_def is_ascii_lower_def is_ascii_upper_def char_of_bv)
qed (simp add: upper_char_def)

lemma upper_lower_char: "upper_char (lower_char c) = upper_char c"
proof (cases "is_ascii_upper c")
  case True
  then have "bv (char_of (bv c + 32)) = bv c + 32"
    by (intro bv_char_of) (simp add: is_ascii_upper_def)
  with True show ?thesis
    by (auto simp: upper_char_def lower_char_def is_ascii_lower_def is_ascii_upper_def char_of_bv)
qed (simp add: lower_char_def)

lemma upper_char_eq_iff: "upper_char x = upper_char y \<longleftrightarrow> lower_char x = lower_char y"
  by (metis lower_upper_char upper_lower_char)

lemma lower_char_ascii [simp]: "is_ascii (lower_char c) \<longleftrightarrow> is_ascii c"
  by (simp add: lower_char_def is_ascii_upper_def is_ascii_def bv_char_of)

section \<open>White space and trimming\<close>

definition ascii_ws :: "char \<Rightarrow> bool" where
  "ascii_ws c \<longleftrightarrow> bv c = 32 \<or> (9 \<le> bv c \<and> bv c \<le> 13)"

text \<open>U+0085 and U+00A0; then U+1680, U+2000..U+200A, U+2028, U+2029, U+202F, U+205F, U+3000.\<close>

definition ws2 :: "char \<Rightarrow> char \<Rightarrow> bool" where
  "ws2 a b \<longleftrightarrow> bv a = 0xC2 \<and> (bv b = 0x85 \<or> bv b = 0xA0)"

definition ws3 :: "char \<Rightarrow> char \<Rightarrow> char \<Rightarrow> bool" where
  "ws3 a b c \<longleftrightarrow>
     (bv a = 0xE1 \<and> bv b = 0x9A \<and> bv c = 0x80) \<or>
     (bv a = 0xE2 \<and> bv b = 0x80 \<and>
        ((0x80 \<le> bv c \<and> bv c \<le> 0x8A) \<or> bv c = 0xA8 \<or> bv c = 0xA9 \<or> bv c = 0xAF)) \<or>
     (bv a = 0xE2 \<and> bv b = 0x81 \<and> bv c = 0x9F) \<or>
     (bv a = 0xE3 \<and> bv b = 0x80 \<and> bv c = 0x80)"

text \<open>The number of bytes of the white space character a string starts with, 0 for none.\<close>

fun ws_len :: "string \<Rightarrow> nat" where
  "ws_len [] = 0"
| "ws_len (a # r) =
     (if ascii_ws a then 1
      else case r of
        [] \<Rightarrow> 0
      | b # r' \<Rightarrow> if ws2 a b then 2
          else (case r' of [] \<Rightarrow> 0 | c # _ \<Rightarrow> if ws3 a b c then 3 else 0))"

text \<open>The same at the end of a string, given reversed.\<close>

fun ws_len_rev :: "string \<Rightarrow> nat" where
  "ws_len_rev [] = 0"
| "ws_len_rev (c # r) =
     (if ascii_ws c then 1
      else case r of
        [] \<Rightarrow> 0
      | b # r' \<Rightarrow> if ws2 b c then 2
          else (case r' of [] \<Rightarrow> 0 | a # _ \<Rightarrow> if ws3 a b c then 3 else 0))"

lemma ws_len_pos: "0 < ws_len s \<Longrightarrow> length s - ws_len s < length s"
  by (cases s) auto

lemma ws_len_rev_pos: "0 < ws_len_rev s \<Longrightarrow> length s - ws_len_rev s < length s"
  by (cases s) auto

function trim_start :: "string \<Rightarrow> string" where
  "trim_start s = (if ws_len s = 0 then s else trim_start (drop (ws_len s) s))"
  by pat_completeness auto
termination
  by (relation "measure length") (auto dest: ws_len_pos)

function trim_start_rev :: "string \<Rightarrow> string" where
  "trim_start_rev s = (if ws_len_rev s = 0 then s else trim_start_rev (drop (ws_len_rev s) s))"
  by pat_completeness auto
termination
  by (relation "measure length") (auto dest: ws_len_rev_pos)

declare trim_start.simps [simp del] trim_start_rev.simps [simp del]

definition trim_end :: "string \<Rightarrow> string" where
  "trim_end s = rev (trim_start_rev (rev s))"

definition trim :: "string \<Rightarrow> string" where
  "trim s = trim_end (trim_start s)"

lemma trim_start_id [str_simps]: "ws_len s = 0 \<Longrightarrow> trim_start s = s"
  by (subst trim_start.simps) simp

lemma trim_start_Nil [simp]: "trim_start [] = []"
  by (simp add: trim_start_id)

lemma trim_start_rev_id [str_simps]: "ws_len_rev s = 0 \<Longrightarrow> trim_start_rev s = s"
  by (subst trim_start_rev.simps) simp

lemma trim_start_ws_len [simp]: "ws_len (trim_start s) = 0"
proof (induction s rule: trim_start.induct)
  case (1 s)
  then show ?case by (subst trim_start.simps) simp
qed

lemma trim_start_rev_ws_len [simp]: "ws_len_rev (trim_start_rev s) = 0"
proof (induction s rule: trim_start_rev.induct)
  case (1 s)
  then show ?case by (subst trim_start_rev.simps) simp
qed

lemma suffix_trim_start: "suffix (trim_start s) s"
proof (induction s rule: trim_start.induct)
  case (1 s)
  show ?case
  proof (cases "ws_len s = 0")
    case False
    with 1 have "suffix (trim_start (drop (ws_len s) s)) (drop (ws_len s) s)" by simp
    then have "suffix (trim_start (drop (ws_len s) s)) s"
      using suffix_drop suffix_order.trans by blast
    with False show ?thesis by (subst trim_start.simps) simp
  qed (simp add: trim_start_id)
qed

lemma suffix_trim_start_rev: "suffix (trim_start_rev s) s"
proof (induction s rule: trim_start_rev.induct)
  case (1 s)
  show ?case
  proof (cases "ws_len_rev s = 0")
    case False
    with 1 have "suffix (trim_start_rev (drop (ws_len_rev s) s)) (drop (ws_len_rev s) s)" by simp
    then have "suffix (trim_start_rev (drop (ws_len_rev s) s)) s"
      using suffix_drop suffix_order.trans by blast
    with False show ?thesis by (subst trim_start_rev.simps) simp
  qed (simp add: trim_start_rev_id)
qed

lemma prefix_trim_end: "prefix (trim_end s) s"
  using suffix_trim_start_rev [of "rev s"] by (simp add: trim_end_def suffix_to_prefix)

lemma set_trim: "set (trim s) \<subseteq> set s"
proof -
  have "set (trim_end t) \<subseteq> set t" for t
    using prefix_trim_end set_mono_prefix by blast
  moreover have "set (trim_start s) \<subseteq> set s"
    using suffix_trim_start set_mono_suffix by blast
  ultimately show ?thesis by (auto simp: trim_def)
qed

lemma length_trim: "length (trim s) \<le> length s"
  by (metis prefix_length_le prefix_trim_end suffix_length_le suffix_trim_start le_trans trim_def)

lemma ws_len_prefix_0: "prefix p s \<Longrightarrow> ws_len s = 0 \<Longrightarrow> ws_len p = 0"
  by (cases p rule: remdups_adj.cases) (auto simp: prefix_def split: list.splits if_splits)

lemma trim_idem [simp]: "trim (trim s) = trim s"
proof -
  have "ws_len (trim s) = 0"
    by (simp add: trim_def ws_len_prefix_0 [OF prefix_trim_end])
  then have "trim_start (trim s) = trim s" by (rule trim_start_id)
  then show ?thesis by (simp add: trim_def trim_end_def trim_start_rev_id)
qed

text \<open>A string without ASCII white space at its ends and without foreign bytes is its own trim.\<close>

lemma ws_len_ascii [str_simps]: "is_ascii a \<Longrightarrow> ws_len (a # r) = (if ascii_ws a then 1 else 0)"
  by (auto simp: is_ascii_def ws2_def ws3_def split: list.splits)

lemma ws_len_rev_ascii [str_simps]:
  "is_ascii c \<Longrightarrow> ws_len_rev (c # r) = (if ascii_ws c then 1 else 0)"
  by (auto simp: is_ascii_def ws2_def ws3_def split: list.splits)

lemma trim_ascii_id:
  assumes "is_ascii (hd s)" "\<not> ascii_ws (hd s)" "is_ascii (last s)" "\<not> ascii_ws (last s)" "s \<noteq> []"
  shows "trim s = s"
proof -
  from assms have "ws_len s = 0" by (cases s) (auto simp: ws_len_ascii simp del: ws_len.simps)
  moreover from assms have "ws_len_rev (rev s) = 0"
    by (cases s rule: rev_cases) (auto simp: ws_len_rev_ascii simp del: ws_len_rev.simps)
  ultimately show ?thesis by (simp add: trim_def trim_end_def trim_start_id trim_start_rev_id)
qed

lemma trim_id:
  assumes "ws_len s = 0" "s \<noteq> []" "is_ascii (last s)" "\<not> ascii_ws (last s)"
  shows "trim s = s"
proof -
  from assms have "ws_len_rev (rev s) = 0"
    by (cases s rule: rev_cases) (auto simp: ws_len_rev_ascii simp del: ws_len_rev.simps)
  with assms(1) show ?thesis by (simp add: trim_def trim_end_def trim_start_id trim_start_rev_id)
qed

text \<open>ASCII white space at the end does not change the trim.\<close>

lemma ws_len_snoc: "a \<noteq> [] \<Longrightarrow> is_ascii c \<Longrightarrow> ws_len (a @ [c]) = ws_len a"
  by (cases a rule: remdups_adj.cases)
     (auto simp: ws2_def ws3_def is_ascii_def split: list.splits if_splits)

lemma ws_len_le: "ws_len s \<le> length s"
  by (cases s rule: remdups_adj.cases) (auto split: list.splits if_splits)

lemma trim_start_snoc_ws:
  assumes c: "is_ascii c" "ascii_ws c"
  shows "trim_start (a @ [c]) = (if trim_start a = [] then [] else trim_start a @ [c])"
proof (induction a rule: trim_start.induct)
  case (1 a)
  consider "a = []" | "a \<noteq> []" "ws_len a = 0" | "a \<noteq> []" "ws_len a \<noteq> 0" by blast
  then show ?case
  proof cases
    case 1
    have "ws_len [c] = 1" using c by (simp add: ws_len_ascii del: ws_len.simps)
    then have "trim_start [c] = []" by (subst trim_start.simps) (simp del: ws_len.simps)
    with 1 show ?thesis by simp
  next
    case 2
    with c show ?thesis by (simp add: trim_start_id ws_len_snoc del: ws_len.simps)
  next
    case 3
    have "trim_start (a @ [c]) = trim_start (drop (ws_len a) a @ [c])"
      using 3 c(1) ws_len_le [of a] by (subst trim_start.simps) (simp add: ws_len_snoc del: ws_len.simps)
    also have "\<dots> = (if trim_start (drop (ws_len a) a) = [] then [] else trim_start (drop (ws_len a) a) @ [c])"
      using 1 3 by simp
    also have "trim_start (drop (ws_len a) a) = trim_start a"
      using 3 by (subst (2) trim_start.simps) (simp del: ws_len.simps)
    finally show ?thesis .
  qed
qed

lemma trim_end_snoc_ws: "is_ascii c \<Longrightarrow> ascii_ws c \<Longrightarrow> trim_end (a @ [c]) = trim_end a"
  unfolding trim_end_def by (simp, subst trim_start_rev.simps) (simp add: ws_len_rev_ascii del: ws_len_rev.simps)

lemma trim_end_Nil [simp]: "trim_end [] = []"
  by (simp add: trim_end_def trim_start_rev_id)

lemma trim_snoc_ws: "is_ascii c \<Longrightarrow> ascii_ws c \<Longrightarrow> trim (a @ [c]) = trim a"
  by (simp add: trim_def trim_start_snoc_ws trim_end_snoc_ws)

lemma digit_ascii: "digit_val c \<noteq> None \<Longrightarrow> is_ascii c \<and> \<not> ascii_ws c"
  by (auto simp: digit_val_def is_ascii_def ascii_ws_def split: if_splits)

lemma trim_show_nat [simp]: "trim (show_nat n) = show_nat n"
  by (rule trim_ascii_id) (auto dest: digit_ascii [OF show_nat_digits]
      simp: digit_ascii [OF show_nat_digits, OF hd_in_set] digit_ascii [OF show_nat_digits, OF last_in_set])

section \<open>Searching, stripping and splitting\<close>

definition starts_with :: "string \<Rightarrow> string \<Rightarrow> bool" where
  "starts_with p s \<longleftrightarrow> take (length p) s = p"

definition ends_with :: "string \<Rightarrow> string \<Rightarrow> bool" where
  "ends_with p s \<longleftrightarrow> starts_with (rev p) (rev s)"

definition strip_prefix :: "string \<Rightarrow> string \<Rightarrow> string option" where
  "strip_prefix p s = (if starts_with p s then Some (drop (length p) s) else None)"

definition strip_suffix :: "string \<Rightarrow> string \<Rightarrow> string option" where
  "strip_suffix p s = map_option rev (strip_prefix (rev p) (rev s))"

definition unwrap_or :: "'a option \<Rightarrow> 'a \<Rightarrow> 'a" where
  "unwrap_or x d = (case x of None \<Rightarrow> d | Some v \<Rightarrow> v)"

fun contains_str :: "string \<Rightarrow> string \<Rightarrow> bool" where
  "contains_str [] n = (n = [])"
| "contains_str (c # cs) n = (starts_with n (c # cs) \<or> contains_str cs n)"

fun split_once :: "char \<Rightarrow> string \<Rightarrow> (string \<times> string) option" where
  "split_once sep [] = None"
| "split_once sep (c # cs) =
     (if c = sep then Some ([], cs) else map_option (\<lambda>(a, b). (c # a, b)) (split_once sep cs))"

text \<open>\<open>str::split\<close> at a character: always at least one piece.\<close>

fun split_char :: "char \<Rightarrow> string \<Rightarrow> string list" where
  "split_char sep [] = [[]]"
| "split_char sep (c # cs) =
     (if c = sep then [] # split_char sep cs
      else case split_char sep cs of [] \<Rightarrow> [[c]] | p # ps \<Rightarrow> (c # p) # ps)"

fun join :: "string \<Rightarrow> string list \<Rightarrow> string" where
  "join sep [] = []"
| "join sep [x] = x"
| "join sep (x # y # ys) = x @ sep @ join sep (y # ys)"

function split_ws_aux :: "string \<Rightarrow> string \<Rightarrow> string list" where
  "split_ws_aux cur s =
     (if s = [] then (if cur = [] then [] else [rev cur])
      else if ws_len s = 0 then split_ws_aux (hd s # cur) (tl s)
      else (if cur = [] then [] else [rev cur]) @ split_ws_aux [] (drop (ws_len s) s))"
  by pat_completeness auto
termination
  by (relation "measure (\<lambda>(cur, s). length s)") (auto simp: ws_len_pos simp del: ws_len.simps)

declare split_ws_aux.simps [simp del]

definition split_whitespace :: "string \<Rightarrow> string list" where
  "split_whitespace s = split_ws_aux [] s"

definition trim_matches :: "char \<Rightarrow> string \<Rightarrow> string" where
  "trim_matches c s = rev (dropWhile ((=) c) (rev (dropWhile ((=) c) s)))"

definition nl :: char where "nl = char_of (10::nat)"
definition cr :: char where "cr = char_of (13::nat)"

abbreviation crlf :: string where "crlf \<equiv> [cr, nl]"

lemma nl_cr_char: "nl = CHR 0x0A" "cr = CHR 0x0D"
  by code_simp+

text \<open>\<open>str::lines\<close>: a line ends at a newline, with one carriage return before it removed; what
  follows the last newline is a line only when it is not empty.\<close>

function lines :: "string \<Rightarrow> string list" where
  "lines s = (if s = [] then []
     else case split_once nl s of
            None \<Rightarrow> [s]
          | Some (a, b) \<Rightarrow> unwrap_or (strip_suffix [cr] a) a # lines b)"
  by pat_completeness auto

lemma split_once_Some_iff:
  "split_once sep s = Some (a, b) \<longleftrightarrow> s = a @ sep # b \<and> sep \<notin> set a"
  by (induction s arbitrary: a b) (auto simp: Cons_eq_append_conv)

lemma split_once_None_iff: "split_once sep s = None \<longleftrightarrow> sep \<notin> set s"
  by (induction s) auto

termination lines
  by (relation "measure length") (auto simp: split_once_Some_iff)

declare lines.simps [simp del]

lemma starts_with_iff: "starts_with p s \<longleftrightarrow> (\<exists>r. s = p @ r)"
  by (metis append_eq_conv_conj append_take_drop_id starts_with_def)

lemma ends_with_iff: "ends_with p s \<longleftrightarrow> (\<exists>r. s = r @ p)"
  unfolding ends_with_def starts_with_iff by (metis rev_append rev_rev_ident)

lemma strip_prefix_Some_iff: "strip_prefix p s = Some r \<longleftrightarrow> s = p @ r"
  by (auto simp: strip_prefix_def starts_with_iff)

lemma strip_suffix_Some_iff: "strip_suffix p s = Some r \<longleftrightarrow> s = r @ p"
  by (auto simp: strip_suffix_def strip_prefix_Some_iff) (metis rev_append rev_rev_ident)+

lemma contains_str_iff: "contains_str s n \<longleftrightarrow> (\<exists>a b. s = a @ n @ b)"
proof (induction s)
  case (Cons c cs)
  show ?case
    by (simp add: Cons.IH starts_with_iff) (metis append_Cons append_Nil neq_Nil_conv append_eq_Cons_conv)
qed simp

lemma split_char_nonempty [simp]: "split_char sep s \<noteq> []"
  by (cases s) (auto split: list.splits)

lemma split_char_no_sep: "p \<in> set (split_char sep s) \<Longrightarrow> sep \<notin> set p"
  by (induction s arbitrary: p) (auto split: list.splits if_splits)

lemma join_Cons: "ps \<noteq> [] \<Longrightarrow> join sep (p # ps) = p @ sep @ join sep ps"
  by (cases ps) auto

lemma join_Cons_char: "join sep ((c # p) # ps) = c # join sep (p # ps)"
  by (cases ps) auto

lemma join_split_char: "join [sep] (split_char sep s) = s"
  by (induction s) (auto split: list.splits simp: join_Cons join_Cons_char)

lemma split_char_append:
  "sep \<notin> set a \<Longrightarrow> split_char sep (a @ sep # b) = a # split_char sep b"
  by (induction a) auto

lemma split_char_single: "sep \<notin> set a \<Longrightarrow> split_char sep a = [a]"
  by (induction a) auto

lemma split_char_join:
  "ps \<noteq> [] \<Longrightarrow> \<forall>p\<in>set ps. sep \<notin> set p \<Longrightarrow> split_char sep (join [sep] ps) = ps"
  by (induction "[sep]" ps rule: join.induct) (auto simp: split_char_single split_char_append)

section \<open>Splitting at white space\<close>

lemma cr_ws [simp]: "is_ascii cr" "ascii_ws cr"
  by (simp_all add: cr_def is_ascii_def ascii_ws_def bv_char_of)

lemma lines_Nil [simp]: "lines [] = []"
  by (simp add: lines.simps)

lemma lines_newline:
  assumes "nl \<notin> set a"
  shows "lines (a @ nl # b) = unwrap_or (strip_suffix [cr] a) a # lines b"
proof -
  have "split_once nl (a @ nl # b) = Some (a, b)"
    using assms by (simp add: split_once_Some_iff)
  then show ?thesis by (subst lines.simps) simp
qed

lemma trim_line [simp]: "trim (unwrap_or (strip_suffix [cr] a) a) = trim a"
  by (auto simp: unwrap_or_def strip_suffix_Some_iff trim_snoc_ws split: option.split)

text \<open>A file written one line at a time.\<close>

definition unlines :: "string list \<Rightarrow> string" where
  "unlines ls = concat (map (\<lambda>l. l @ [nl]) ls)"

lemma unlines_simps [simp]: "unlines [] = []" "unlines (l # ls) = l @ nl # unlines ls"
  by (simp_all add: unlines_def)

lemma unlines_append [simp]: "unlines (xs @ ys) = unlines xs @ unlines ys"
  by (simp add: unlines_def)

lemma lines_unlines:
  "\<forall>l\<in>set ls. nl \<notin> set l \<Longrightarrow> lines (unlines ls) = map (\<lambda>l. unwrap_or (strip_suffix [cr] l) l) ls"
  by (induction ls) (simp_all add: lines_newline)

text \<open>No white space character starts anywhere in the string.\<close>

definition ws_free :: "string \<Rightarrow> bool" where
  "ws_free t \<longleftrightarrow> (\<forall>u. suffix u t \<longrightarrow> ws_len u = 0)"

lemma ws_len_0_then_space: "ws_len u = 0 \<Longrightarrow> u \<noteq> [] \<Longrightarrow> ws_len (u @ CHR '' '' # r) = 0"
  by (cases u rule: remdups_adj.cases)
     (auto simp: ws2_def ws3_def bv_def split: list.splits if_splits)

lemma ws_free_Cons: "ws_free (c # t) \<longleftrightarrow> ws_len (c # t) = 0 \<and> ws_free t"
  by (auto simp: ws_free_def suffix_Cons simp del: ws_len.simps)

lemma split_ws_aux_tokens:
  assumes "\<And>u. suffix u (rev cur) \<Longrightarrow> u \<noteq> [] \<Longrightarrow> ws_len (u @ s) = 0"
    and "t \<in> set (split_ws_aux cur s)"
  shows "t \<noteq> [] \<and> ws_free t"
  using assms
proof (induction cur s rule: split_ws_aux.induct)
  case (1 cur s)
  have cur_free: "ws_free (rev cur)"
    unfolding ws_free_def
  proof (intro allI impI)
    fix u assume "suffix u (rev cur)"
    then show "ws_len u = 0"
      using 1(3) [of u] ws_len_prefix_0 [of u "u @ s"] by (cases "u = []") auto
  qed
  show ?case
  proof (cases "s = [] \<or> ws_len s \<noteq> 0")
    case True
    have "t = rev cur \<and> cur \<noteq> [] \<or> s \<noteq> [] \<and> t \<in> set (split_ws_aux [] (drop (ws_len s) s))"
      using 1(4) True by (subst (asm) split_ws_aux.simps) (auto split: if_splits)
    then show ?thesis using 1(2) True cur_free by auto
  next
    case False
    then obtain c r where s: "s = c # r" by (cases s) auto
    have inv: "ws_len (u @ r) = 0" if "suffix u (rev (c # cur))" "u \<noteq> []" for u
    proof -
      from that obtain v where "u = v @ [c]" "suffix v (rev cur)"
        by (auto simp: suffix_snoc)
      then show ?thesis using 1(3) [of v] False s by (cases "v = []") auto
    qed
    have "t \<in> set (split_ws_aux (c # cur) r)"
      using 1(4) False s by (subst (asm) split_ws_aux.simps) (simp del: ws_len.simps)
    then show ?thesis using 1(1) False s inv by (simp del: ws_len.simps)
  qed
qed

lemma split_whitespace_tokens:
  "t \<in> set (split_whitespace s) \<Longrightarrow> t \<noteq> [] \<and> ws_free t"
  unfolding split_whitespace_def by (rule split_ws_aux_tokens) auto

lemma split_ws_aux_ws_free:
  "ws_free t \<Longrightarrow> cur \<noteq> [] \<or> t \<noteq> [] \<Longrightarrow> split_ws_aux cur t = [rev cur @ t]"
proof (induction t arbitrary: cur)
  case (Cons c t)
  then show ?case
    by (subst split_ws_aux.simps) (simp add: ws_free_Cons del: ws_len.simps)
qed (simp add: split_ws_aux.simps)

lemma ws_len_space: "ws_len (CHR '' '' # r) = 1"
  by (simp add: ascii_ws_def bv_def)

lemma split_ws_aux_token_space:
  "ws_free t \<Longrightarrow> cur \<noteq> [] \<or> t \<noteq> [] \<Longrightarrow>
     split_ws_aux cur (t @ CHR '' '' # r) = (rev cur @ t) # split_ws_aux [] r"
proof (induction t arbitrary: cur)
  case Nil
  then show ?case
    by (subst split_ws_aux.simps) (simp add: ws_len_space del: ws_len.simps)
next
  case (Cons c t)
  then have "ws_len (c # t @ CHR '' '' # r) = 0"
    using ws_len_0_then_space [of "c # t" r] by (simp add: ws_free_Cons del: ws_len.simps)
  with Cons show ?case
    by (subst split_ws_aux.simps) (simp add: ws_free_Cons del: ws_len.simps)
qed

lemma split_whitespace_join:
  "\<forall>t\<in>set ts. t \<noteq> [] \<and> ws_free t \<Longrightarrow> split_whitespace (join '' '' ts) = ts"
proof (induction "'' ''" ts rule: join.induct)
  case 1
  show ?case by (simp add: split_whitespace_def split_ws_aux.simps)
qed (auto simp: split_whitespace_def split_ws_aux_ws_free split_ws_aux_token_space)

section \<open>Lossy UTF-8 decoding\<close>

definition utf8_cont :: "char \<Rightarrow> bool" where
  "utf8_cont c \<longleftrightarrow> 0x80 \<le> bv c \<and> bv c \<le> 0xBF"

definition utf8_width :: "char \<Rightarrow> nat" where
  "utf8_width c =
     (let x = bv c in
      if x < 0x80 then 1
      else if 0xC2 \<le> x \<and> x \<le> 0xDF then 2
      else if 0xE0 \<le> x \<and> x \<le> 0xEF then 3
      else if 0xF0 \<le> x \<and> x \<le> 0xF4 then 4 else 0)"

text \<open>The second byte's range depends on the first: no overlong form, no surrogate, nothing
  beyond U+10FFFF.\<close>

definition utf8_second :: "char \<Rightarrow> char \<Rightarrow> bool" where
  "utf8_second a b \<longleftrightarrow>
     (let x = bv a; y = bv b in
      if x = 0xE0 then 0xA0 \<le> y \<and> y \<le> 0xBF
      else if x = 0xED then 0x80 \<le> y \<and> y \<le> 0x9F
      else if x = 0xF0 then 0x90 \<le> y \<and> y \<le> 0xBF
      else if x = 0xF4 then 0x80 \<le> y \<and> y \<le> 0x8F
      else 0x80 \<le> y \<and> y \<le> 0xBF)"

text \<open>Length of the sequence at the head of the input and whether it is a valid character.\<close>

fun utf8_seq :: "string \<Rightarrow> nat \<times> bool" where
  "utf8_seq [] = (0, False)"
| "utf8_seq (a # r) =
     (let w = utf8_width a in
      if w = 1 then (1, True)
      else if w = 0 then (1, False)
      else case r of
        [] \<Rightarrow> (1, False)
      | b # r2 \<Rightarrow>
          if \<not> utf8_second a b then (1, False)
          else if w = 2 then (2, True)
          else (case r2 of
            [] \<Rightarrow> (2, False)
          | c # r3 \<Rightarrow>
              if \<not> utf8_cont c then (2, False)
              else if w = 3 then (3, True)
              else (case r3 of
                [] \<Rightarrow> (3, False)
              | d # _ \<Rightarrow> if utf8_cont d then (4, True) else (3, False))))"

definition replacement_char :: string where
  "replacement_char = map char_of [0xEF, 0xBF, 0xBD :: nat]"

lemma utf8_seq_pos: "s \<noteq> [] \<Longrightarrow> 0 < fst (utf8_seq s)"
  by (cases s) (auto simp: Let_def split: list.splits)

function from_utf8_lossy :: "bytes \<Rightarrow> string" where
  "from_utf8_lossy s =
     (if s = [] then []
      else (if snd (utf8_seq s) then take (fst (utf8_seq s)) s else replacement_char)
           @ from_utf8_lossy (drop (fst (utf8_seq s)) s))"
  by pat_completeness auto
termination
  by (relation "measure length") (auto simp: utf8_seq_pos simp del: utf8_seq.simps)

function valid_utf8 :: "bytes \<Rightarrow> bool" where
  "valid_utf8 s =
     (if s = [] then True else snd (utf8_seq s) \<and> valid_utf8 (drop (fst (utf8_seq s)) s))"
  by pat_completeness auto
termination
  by (relation "measure length") (auto simp: utf8_seq_pos simp del: utf8_seq.simps)

declare from_utf8_lossy.simps [simp del] valid_utf8.simps [simp del] utf8_seq.simps [simp del]

lemma from_utf8_lossy_Nil [simp]: "from_utf8_lossy [] = []"
  by (simp add: from_utf8_lossy.simps)

lemma valid_utf8_Nil [simp]: "valid_utf8 []"
  by (subst valid_utf8.simps) simp

lemma from_utf8_lossy_valid: "valid_utf8 s \<Longrightarrow> from_utf8_lossy s = s"
proof (induction s rule: from_utf8_lossy.induct)
  case (1 s)
  then show ?case
    by (subst from_utf8_lossy.simps) (auto simp: valid_utf8.simps [of s])
qed

lemma utf8_seq_valid_cases:
  assumes "utf8_seq s = (k, True)"
  obtains a r where "s = a # r" "utf8_width a = 1" "k = 1"
  | a b r where "s = a # b # r" "utf8_width a = 2" "utf8_second a b" "k = 2"
  | a b c r where "s = a # b # c # r" "utf8_width a = 3" "utf8_second a b" "utf8_cont c" "k = 3"
  | a b c d r where "s = a # b # c # d # r" "utf8_width a \<notin> {0, 1, 2, 3}" "utf8_second a b"
      "utf8_cont c" "utf8_cont d" "k = 4"
  using assms
  by (cases s) (simp_all add: utf8_seq.simps Let_def split: list.splits if_splits)

lemma utf8_seq_take:
  assumes "snd (utf8_seq s)"
  shows "utf8_seq (take (fst (utf8_seq s)) s @ x) = utf8_seq s"
proof -
  obtain k where k: "utf8_seq s = (k, True)"
    using assms by (cases "utf8_seq s") auto
  then have "utf8_seq (take k s @ x) = (k, True)"
    by (cases rule: utf8_seq_valid_cases) (simp_all add: utf8_seq.simps Let_def)
  with k show ?thesis by simp
qed

lemma utf8_seq_len: "fst (utf8_seq s) \<le> length s"
  by (cases s) (auto simp: utf8_seq.simps Let_def split: list.splits)

lemma utf8_seq_replacement: "utf8_seq (replacement_char @ x) = (3, True)"
  by (simp add: replacement_char_def utf8_seq.simps Let_def utf8_width_def utf8_second_def
      utf8_cont_def bv_char_of)

lemma valid_utf8_lossy: "valid_utf8 (from_utf8_lossy s)"
proof (induction s rule: from_utf8_lossy.induct)
  case (1 s)
  show ?case
  proof (cases "s = []")
    case False
    let ?k = "fst (utf8_seq s)"
    let ?p = "if snd (utf8_seq s) then take ?k s else replacement_char"
    let ?rest = "from_utf8_lossy (drop ?k s)"
    have "snd (utf8_seq (?p @ ?rest)) \<and> drop (fst (utf8_seq (?p @ ?rest))) (?p @ ?rest) = ?rest"
      using utf8_seq_take [of s] utf8_seq_len [of s]
      by (auto simp: utf8_seq_replacement) (simp add: replacement_char_def)
    then have "valid_utf8 (?p @ ?rest)"
      using 1 False by (subst valid_utf8.simps) auto
    with False show ?thesis by (subst from_utf8_lossy.simps) simp
  qed simp
qed

text \<open>An ASCII character separates: what is valid before and after it is valid together.\<close>

lemma ascii_not_cont: "is_ascii c \<Longrightarrow> \<not> utf8_cont c \<and> \<not> utf8_second a c \<and> utf8_width c = 1"
  by (auto simp: is_ascii_def utf8_cont_def utf8_second_def utf8_width_def Let_def split: if_splits)

lemma utf8_seq_before_ascii:
  assumes "is_ascii c" "a \<noteq> []"
  shows "snd (utf8_seq (a @ c # b)) \<longleftrightarrow> snd (utf8_seq a)"
    and "snd (utf8_seq a) \<Longrightarrow> utf8_seq (a @ c # b) = utf8_seq a"
proof -
  show eq: "snd (utf8_seq a) \<Longrightarrow> utf8_seq (a @ c # b) = utf8_seq a"
    using utf8_seq_take [of a "drop (fst (utf8_seq a)) a @ c # b"]
    by (simp only: append_assoc [symmetric] append_take_drop_id)
  have "snd (utf8_seq a)" if s: "snd (utf8_seq (a @ c # b))"
  proof -
    obtain k where "utf8_seq (a @ c # b) = (k, True)" using s by (cases "utf8_seq (a @ c # b)") auto
    then show ?thesis
      using assms ascii_not_cont [OF assms(1)]
      by (cases rule: utf8_seq_valid_cases)
         (auto simp: append_eq_Cons_conv utf8_seq.simps Let_def split: list.splits)
  qed
  with eq show "snd (utf8_seq (a @ c # b)) \<longleftrightarrow> snd (utf8_seq a)" by auto
qed

lemma valid_utf8_ascii_append:
  assumes "is_ascii c"
  shows "valid_utf8 (a @ c # b) \<longleftrightarrow> valid_utf8 a \<and> valid_utf8 b"
proof (induction a rule: valid_utf8.induct)
  case (1 a)
  show ?case
  proof (cases "a = []")
    case True
    then show ?thesis
      using ascii_not_cont [OF assms] by (subst valid_utf8.simps) (simp add: utf8_seq.simps Let_def)
  next
    case False
    have "valid_utf8 (a @ c # b) \<longleftrightarrow> snd (utf8_seq (a @ c # b)) \<and> valid_utf8 (drop (fst (utf8_seq (a @ c # b))) (a @ c # b))"
      by (subst valid_utf8.simps) simp
    also have "\<dots> \<longleftrightarrow> snd (utf8_seq a) \<and> valid_utf8 (drop (fst (utf8_seq a)) a @ c # b)"
      using utf8_seq_before_ascii [OF assms False] utf8_seq_len [of a] by auto
    also have "\<dots> \<longleftrightarrow> snd (utf8_seq a) \<and> valid_utf8 (drop (fst (utf8_seq a)) a) \<and> valid_utf8 b"
      using 1 False by auto
    also have "\<dots> \<longleftrightarrow> valid_utf8 a \<and> valid_utf8 b"
      using False by (simp add: valid_utf8.simps [of a])
    finally show ?thesis .
  qed
qed

lemma valid_utf8_ascii: "list_all is_ascii s \<Longrightarrow> valid_utf8 s"
proof (induction s)
  case (Cons c s)
  then show ?case using valid_utf8_ascii_append [of c "[]" s] by simp
qed simp

lemma nl_ascii [simp]: "is_ascii nl"
  by (simp add: nl_def is_ascii_def bv_char_of)

lemma valid_utf8_unlines: "valid_utf8 (unlines ls) \<longleftrightarrow> list_all valid_utf8 ls"
  by (induction ls) (simp_all add: valid_utf8_ascii_append)

lemma valid_utf8_strip_cr: "valid_utf8 a \<Longrightarrow> valid_utf8 (unwrap_or (strip_suffix [cr] a) a)"
  using valid_utf8_ascii_append [of cr _ "[]"]
  by (auto simp: unwrap_or_def strip_suffix_Some_iff split: option.split)

lemma lines_elem:
  assumes "l \<in> set (lines s)"
  shows "nl \<notin> set l \<and> (valid_utf8 s \<longrightarrow> valid_utf8 l)"
  using assms
proof (induction s rule: lines.induct)
  case (1 s)
  have no: "nl \<notin> set a \<Longrightarrow> nl \<notin> set (unwrap_or (strip_suffix [cr] a) a)" for a
    by (auto simp: unwrap_or_def strip_suffix_Some_iff split: option.split)
  show ?case
  proof (cases "split_once nl s")
    case None
    then have "lines s = (if s = [] then [] else [s])" by (subst lines.simps) simp
    with None 1(2) show ?thesis by (auto simp: split_once_None_iff split: if_splits)
  next
    case (Some p)
    obtain a b where p: "p = (a, b)" by force
    with Some have s: "s = a @ nl # b" "nl \<notin> set a" by (simp_all add: split_once_Some_iff)
    then have "l = unwrap_or (strip_suffix [cr] a) a \<or> l \<in> set (lines b)"
      using 1(2) lines_newline [of a b] by simp
    then show ?thesis
      using 1(1) Some p s no valid_utf8_strip_cr by (auto simp: valid_utf8_ascii_append)
  qed
qed

end
