(* ===== verification/Net_Addr.thy ===== *)
theory Net_Addr
  imports Rust_Str
begin

text \<open>
  \<open>std::net::IpAddr\<close>: the address type, \<open>str::parse::<IpAddr>\<close> (the standard library's recursive
  descent parser for dotted IPv4 and for IPv6 with \<open>::\<close> and an embedded IPv4 tail), \<open>Display\<close> and
  \<open>is_loopback\<close>. The round trip of IPv4 addresses through their text is proved at the end.
\<close>

datatype ip_addr = V4 u32 | V6 "128 word"

section \<open>Octets and segments\<close>

definition v4_octets :: "u32 \<Rightarrow> nat list" where
  "v4_octets w = map (\<lambda>i. unat w div 2 ^ (8 * i) mod 256) [3, 2, 1, 0]"

definition v6_segments :: "128 word \<Rightarrow> nat list" where
  "v6_segments w = map (\<lambda>i. unat w div 2 ^ (16 * i) mod 65536) [7, 6, 5, 4, 3, 2, 1, 0]"

definition from_digits :: "nat \<Rightarrow> nat list \<Rightarrow> nat" where
  "from_digits base ds = foldl (\<lambda>acc d. base * acc + d) 0 ds"

definition v4_of_octets :: "nat list \<Rightarrow> u32" where
  "v4_of_octets os = of_nat (from_digits 256 os)"

definition v6_of_segments :: "nat list \<Rightarrow> 128 word" where
  "v6_of_segments gs = of_nat (from_digits 65536 gs)"

definition is_loopback :: "ip_addr \<Rightarrow> bool" where
  "is_loopback a = (case a of V4 w \<Rightarrow> hd (v4_octets w) = 127 | V6 w \<Rightarrow> w = 1)"

section \<open>Parsing\<close>

definition to_digit :: "nat \<Rightarrow> char \<Rightarrow> nat option" where
  "to_digit radix c =
     (let v = (if is_ascii_digit c then bv c - 48
               else if is_ascii_lower c then bv c - 87
               else if is_ascii_upper c then bv c - 55 else radix)
      in if v < radix then Some v else None)"

definition read_number :: "nat \<Rightarrow> nat \<Rightarrow> bool \<Rightarrow> nat \<Rightarrow> string \<Rightarrow> (nat \<times> string) option" where
  "read_number radix max_digits allow_zero_prefix mx s =
     (let ds = takeWhile (\<lambda>c. to_digit radix c \<noteq> None) s;
          v = from_digits radix (map (\<lambda>c. the (to_digit radix c)) ds)
      in if ds = [] \<or> max_digits < length ds then None
         else if \<not> allow_zero_prefix \<and> hd ds = CHR ''0'' \<and> 1 < length ds then None
         else if v \<le> mx then Some (v, drop (length ds) s) else None)"

definition read_separator ::
  "char \<Rightarrow> nat \<Rightarrow> (string \<Rightarrow> ('a \<times> string) option) \<Rightarrow> string \<Rightarrow> ('a \<times> string) option" where
  "read_separator sep i inner s =
     (if i = 0 then inner s
      else case s of c # r \<Rightarrow> if c = sep then inner r else None | [] \<Rightarrow> None)"

fun read_octets :: "nat \<Rightarrow> nat \<Rightarrow> string \<Rightarrow> (nat list \<times> string) option" where
  "read_octets i 0 s = Some ([], s)"
| "read_octets i (Suc n) s =
     (case read_separator (CHR ''.'') i (read_number 10 3 False 255) s of
        None \<Rightarrow> None
      | Some (v, r) \<Rightarrow> map_option (\<lambda>(vs, r'). (v # vs, r')) (read_octets (Suc i) n r))"

definition read_ipv4_addr :: "string \<Rightarrow> (nat list \<times> string) option" where
  "read_ipv4_addr s = read_octets 0 4 s"

fun read_groups :: "nat \<Rightarrow> nat \<Rightarrow> string \<Rightarrow> nat list \<times> bool \<times> string" where
  "read_groups i 0 s = ([], False, s)"
| "read_groups i (Suc n) s =
     (case (if 1 \<le> n then read_separator (CHR '':'') i read_ipv4_addr s else None) of
        Some ([a, b, c, d], r) \<Rightarrow> ([256 * a + b, 256 * c + d], True, r)
      | _ \<Rightarrow>
        (case read_separator (CHR '':'') i (read_number 16 4 True 65535) s of
           None \<Rightarrow> ([], False, s)
         | Some (g, r) \<Rightarrow>
             let (gs, v4, r') = read_groups (Suc i) n r in (g # gs, v4, r')))"

definition read_ipv6_addr :: "string \<Rightarrow> (nat list \<times> string) option" where
  "read_ipv6_addr s =
     (let (head, head_ipv4, r) = read_groups 0 8 s in
      if length head = 8 then Some (head, r)
      else if head_ipv4 then None
      else case strip_prefix ''::'' r of
             None \<Rightarrow> None
           | Some r' \<Rightarrow>
               let (tail, _, r'') = read_groups 0 (8 - (length head + 1)) r'
               in Some (head @ replicate (8 - (length head + length tail)) 0 @ tail, r''))"

definition parse_ip :: "string \<Rightarrow> ip_addr option" where
  "parse_ip s =
     (case read_ipv4_addr s of
        Some (os, r) \<Rightarrow> if r = [] then Some (V4 (v4_of_octets os)) else None
      | None \<Rightarrow>
          (case read_ipv6_addr s of
             Some (gs, r) \<Rightarrow> if r = [] then Some (V6 (v6_of_segments gs)) else None
           | None \<Rightarrow> None))"

section \<open>Display\<close>

definition hex_digit :: "nat \<Rightarrow> char" where
  "hex_digit d = char_of (if d < 10 then 48 + d else 87 + d)"

fun show_hex :: "nat \<Rightarrow> string" where
  "show_hex n = (if n < 16 then [hex_digit n] else show_hex (n div 16) @ [hex_digit (n mod 16)])"

declare show_hex.simps [simp del]

definition show_v4 :: "nat list \<Rightarrow> string" where
  "show_v4 os = join ''.'' (map show_nat os)"

text \<open>The longest run of zero segments, the first one if several are as long: start and length.\<close>

fun zero_span :: "nat \<Rightarrow> nat \<times> nat \<Rightarrow> nat \<times> nat \<Rightarrow> nat list \<Rightarrow> nat \<times> nat" where
  "zero_span i cur best [] = best"
| "zero_span i cur best (g # gs) =
     (if g = 0 then
        let cur' = (if snd cur = 0 then (i, 1) else (fst cur, Suc (snd cur)))
        in zero_span (Suc i) cur' (if snd best < snd cur' then cur' else best) gs
      else zero_span (Suc i) (0, 0) best gs)"

definition show_v6 :: "nat list \<Rightarrow> string" where
  "show_v6 gs =
     (if take 5 gs = [0, 0, 0, 0, 0] \<and> gs ! 5 = 65535 then
        ''::ffff:'' @ show_v4 [gs ! 6 div 256, gs ! 6 mod 256, gs ! 7 div 256, gs ! 7 mod 256]
      else
        let (start, len) = zero_span 0 (0, 0) (0, 0) gs in
        if 1 < len then
          join '':'' (map show_hex (take start gs)) @ ''::'' @
          join '':'' (map show_hex (drop (start + len) gs))
        else join '':'' (map show_hex gs))"

definition show_ip :: "ip_addr \<Rightarrow> string" where
  "show_ip a = (case a of V4 w \<Rightarrow> show_v4 (v4_octets w) | V6 w \<Rightarrow> show_v6 (v6_segments w))"

section \<open>IPv4 text round trip\<close>

lemma v4_of_octets_inverse: "v4_of_octets (v4_octets w) = w"
proof -
  define n where "n = unat w"
  have "n < 2 ^ 32" using unsigned_less [of w] by (simp add: n_def)
  then have top: "n div 256 div 256 div 256 mod 256 = n div 256 div 256 div 256" by simp
  have "n div 2 ^ 16 = n div 256 div 256" "n div 2 ^ 24 = n div 256 div 256 div 256"
    by (simp_all flip: div_mult2_eq)
  then have "from_digits 256 (v4_octets w)
      = 256 * (256 * (256 * (n div 256 div 256 div 256) + n div 256 div 256 mod 256)
               + n div 256 mod 256) + n mod 256"
    using top by (simp add: from_digits_def v4_octets_def n_def)
  also have "\<dots> = n" by (simp only: mult_div_mod_eq)
  finally show ?thesis by (simp add: v4_of_octets_def n_def)
qed

lemma to_digit_10: "to_digit 10 c = digit_val c"
  by (auto simp: to_digit_def digit_val_def Let_def is_ascii_digit_def is_ascii_lower_def
      is_ascii_upper_def)

lemma read_digits_foldl:
  "\<forall>c\<in>set s. digit_val c \<noteq> None \<Longrightarrow>
     read_digits a s = Some (foldl (\<lambda>acc d. 10 * acc + d) a (map (\<lambda>c. the (digit_val c)) s))"
  by (induction a s rule: read_digits.induct) auto

lemma from_digits_show_nat:
  "from_digits 10 (map (\<lambda>c. the (digit_val c)) (show_nat n)) = n"
  using read_digits_foldl [of "show_nat n" 0] read_digits_show_nat [of n] show_nat_digits
  by (auto simp: from_digits_def)

lemma show_nat_octet:
  "n < 256 \<Longrightarrow> length (show_nat n) \<le> 3"
  by (subst show_nat.simps, simp, intro impI, subst show_nat.simps, simp, intro impI,
      subst show_nat.simps, simp)

lemma show_nat_no_leading_zero: "hd (show_nat n) = CHR ''0'' \<Longrightarrow> length (show_nat n) = 1"
proof (induction n rule: show_nat.induct)
  case (1 n)
  show ?case
  proof (cases "n < 10")
    case False
    with "1.prems" have "hd (show_nat (n div 10)) = CHR ''0''"
      by (subst (asm) show_nat.simps) simp
    with 1 False have one: "length (show_nat (n div 10)) = 1" by simp
    have "n div 10 < 10"
    proof (rule ccontr)
      assume "\<not> n div 10 < 10"
      with one show False by (subst (asm) show_nat.simps) simp
    qed
    then have "char_of (48 + n div 10) = CHR ''0''"
      using \<open>hd (show_nat (n div 10)) = CHR ''0''\<close> by (subst (asm) show_nat.simps) simp
    then have "bv (char_of (48 + n div 10)) = 48" by (simp add: bv_def)
    with \<open>n div 10 < 10\<close> False show ?thesis by (simp add: bv_char_of)
  qed (subst show_nat.simps, simp)
qed

lemma read_number_octet:
  assumes "n < 256" and "r = [] \<or> digit_val (hd r) = None"
  shows "read_number 10 3 False 255 (show_nat n @ r) = Some (n, r)"
proof -
  have "takeWhile (\<lambda>c. digit_val c \<noteq> None) (show_nat n @ r) = show_nat n"
    using assms(2) show_nat_digits by (cases r) (auto simp: takeWhile_append)
  then have tw: "takeWhile (\<lambda>c. to_digit 10 c \<noteq> None) (show_nat n @ r) = show_nat n"
    by (simp add: to_digit_10)
  have "\<not> (hd (show_nat n) = CHR ''0'' \<and> 1 < length (show_nat n))"
    using show_nat_no_leading_zero by fastforce
  moreover have "\<not> 3 < length (show_nat n)"
    using show_nat_octet [OF assms(1)] by simp
  ultimately show ?thesis
    using assms(1) unfolding read_number_def tw Let_def
    by (simp add: to_digit_10 from_digits_show_nat)
qed

lemma read_ipv4_show:
  assumes "a < 256" "b < 256" "c < 256" "d < 256"
  shows "read_ipv4_addr (show_v4 [a, b, c, d]) = Some ([a, b, c, d], [])"
proof -
  have sep: "digit_val (CHR ''.'') = None" by (simp add: digit_val_def bv_def)
  have four: "(4 :: nat) = Suc (Suc (Suc (Suc 0)))" by simp
  show ?thesis
    unfolding read_ipv4_addr_def show_v4_def four
    using assms read_number_octet [OF assms(4), of "[]"]
    by (simp add: read_separator_def read_number_octet sep)
qed

lemma v4_octets_shape:
  obtains a b c d where "v4_octets w = [a, b, c, d]" "a < 256" "b < 256" "c < 256" "d < 256"
  by (simp add: v4_octets_def)

lemma parse_ip_show_v4: "parse_ip (show_ip (V4 w)) = Some (V4 w)"
proof -
  obtain a b c d where os: "v4_octets w = [a, b, c, d]"
    and "a < 256" "b < 256" "c < 256" "d < 256"
    by (rule v4_octets_shape)
  then have "read_ipv4_addr (show_v4 (v4_octets w)) = Some (v4_octets w, [])"
    by (simp add: read_ipv4_show)
  then show ?thesis
    by (simp add: parse_ip_def show_ip_def v4_of_octets_inverse)
qed

end
