(* ===== verification/Deps.thy ===== *)
theory Deps
  imports Net_Addr
begin

text \<open>
  The third-party crates the program calls, as records of operations the definitions take as an
  argument: nothing is assumed of an operation except where a theorem names a law. The records
  extend each other, so a component that needs only the \<open>http\<close> crate is stated over
  \<open>('h, 'z) http_deps_scheme\<close> and applies to every larger record.

  \<^item> \<open>http_deps\<close> (crate \<open>http\<close>): \<open>HeaderMap\<close> as the type \<open>'h\<close> with \<open>get\<close> (the first value of a
    name, as bytes), \<open>iter\<close>, \<open>keys\<close>, \<open>len\<close>, \<open>insert\<close>, \<open>remove\<close> and \<open>new\<close>; \<open>HeaderValue::to_str\<close>;
    whether \<open>HeaderName::from_bytes\<close>, \<open>HeaderValue::from_str\<close> and \<open>StatusCode::from_u16\<close> accept
    their argument. A \<open>Method\<close> is its text and a \<open>StatusCode\<close> its number.
  \<^item> \<open>net_deps\<close> (crate \<open>ipnet\<close>): \<open>IpNet\<close> as \<open>'n\<close>: parsing, the host route of an address,
    \<open>contains\<close> and \<open>Display\<close>.
  \<^item> \<open>limit_deps\<close> (crates \<open>governor\<close> and \<open>moka\<close>): a table of token buckets \<open>'b\<close> keyed by address,
    and a cache \<open>'c\<close> of counters keyed by a string, each with its observable operations at a time.
\<close>

record 'h http_deps =
  hm_get :: "'h \<Rightarrow> string \<Rightarrow> bytes option"
  hm_iter :: "'h \<Rightarrow> (string \<times> bytes) list"
  hm_keys :: "'h \<Rightarrow> string list"
  hm_len :: "'h \<Rightarrow> nat"
  hm_insert :: "'h \<Rightarrow> string \<Rightarrow> bytes \<Rightarrow> 'h"
  hm_remove :: "'h \<Rightarrow> string \<Rightarrow> 'h"
  hm_new :: 'h
  hv_to_str :: "bytes \<Rightarrow> string option"
  hname_ok :: "string \<Rightarrow> bool"
  hvalue_ok :: "string \<Rightarrow> bool"
  status_ok :: "u16 \<Rightarrow> bool"

record ('h, 'n) net_deps = "'h http_deps" +
  net_parse :: "string \<Rightarrow> 'n option"
  net_of_ip :: "ip_addr \<Rightarrow> 'n"
  net_contains :: "'n \<Rightarrow> ip_addr \<Rightarrow> bool"
  net_display :: "'n \<Rightarrow> string"

text \<open>
  A counter entry as \<open>budu-ratelimit\<close> stores it; the cache is told the time to live by the
  \<open>Expiry\<close> implementation, which returns the entry's \<open>ttl\<close> after a create and after an update.
\<close>

record counter =
  count :: u64
  ttl :: u64

text \<open>The answer of \<open>limiter.check()\<close>: \<open>None\<close> is allowed, \<open>Some\<close> is the wait as whole seconds and
  nanoseconds below a second, as \<open>Duration\<close> stores it.\<close>

record ('h, 'n, 'b, 'c) limit_deps = "('h, 'n) net_deps" +
  bk_new :: "u64 \<Rightarrow> u64 \<Rightarrow> 'b"
  bk_check :: "'b \<Rightarrow> u32 \<Rightarrow> u32 \<Rightarrow> ip_addr \<Rightarrow> u64 \<Rightarrow> (u64 \<times> u32) option \<times> 'b"
  bk_count :: "'b \<Rightarrow> u64"
  bk_maint :: "'b \<Rightarrow> u64 \<Rightarrow> 'b"
  cc_new :: "u64 \<Rightarrow> 'c"
  cc_get :: "'c \<Rightarrow> string \<Rightarrow> u64 \<Rightarrow> counter option"
  cc_insert :: "'c \<Rightarrow> string \<Rightarrow> counter \<Rightarrow> u64 \<Rightarrow> 'c"
  cc_count :: "'c \<Rightarrow> u64"
  cc_maint :: "'c \<Rightarrow> u64 \<Rightarrow> 'c"

section \<open>Documented laws\<close>

text \<open>Header names are case-insensitive: \<open>insert\<close> replaces all values of its name, \<open>remove\<close>
  removes them.\<close>

definition http_laws :: "('h, 'z) http_deps_scheme \<Rightarrow> bool" where
  "http_laws D \<longleftrightarrow>
     (\<forall>h n v m. hname_ok D n \<longrightarrow>
        hm_get D (hm_insert D h n v) m = (if eq_ignore_ascii_case n m then Some v else hm_get D h m)) \<and>
     (\<forall>h n m. hm_get D (hm_remove D h n) m = (if eq_ignore_ascii_case n m then None else hm_get D h m))"

lemma http_laws_insert:
  "http_laws D \<Longrightarrow> hname_ok D n \<Longrightarrow>
     hm_get D (hm_insert D h n v) m = (if eq_ignore_ascii_case n m then Some v else hm_get D h m)"
  by (simp add: http_laws_def)

lemma http_laws_remove:
  "http_laws D \<Longrightarrow>
     hm_get D (hm_remove D h n) m = (if eq_ignore_ascii_case n m then None else hm_get D h m)"
  by (simp add: http_laws_def)

text \<open>A counter written is read back under its key until it expires, and other keys are not
  affected (the cache is below its capacity).\<close>

definition counter_laws :: "('h, 'n, 'b, 'c, 'z) limit_deps_scheme \<Rightarrow> bool" where
  "counter_laws D \<longleftrightarrow>
     (\<forall>c k v t t'. t \<le> t' \<and> t' - t < ttl v \<longrightarrow> cc_get D (cc_insert D c k v t) k t' = Some v) \<and>
     (\<forall>c k v t k' t'. k' \<noteq> k \<longrightarrow> cc_get D (cc_insert D c k v t) k' t' = cc_get D c k' t')"

text \<open>\<open>headers.get(name).and_then(|v| v.to_str().ok())\<close>, the way the sources read a header.\<close>

definition header_str :: "('h, 'z) http_deps_scheme \<Rightarrow> 'h \<Rightarrow> string \<Rightarrow> string option" where
  "header_str D h n = Option.bind (hm_get D h n) (hv_to_str D)"

end
