(* ===== verification/Common.thy ===== *)
theory Common
  imports Deps
begin

text \<open>
  \<open>crates/budu-common\<close>: the request and response contexts, the verdict, the outcome of a stage and
  the process-wide counters. The trait \<open>Stage\<close> is the locale \<open>waf_stage\<close>: a stage may fill the
  normalisation cache and stamp the country, and leaves the rest of the request as it is, also when
  it panics half way.
\<close>

record country_code =
  cc_first :: char
  cc_second :: char

definition country_as_str :: "country_code \<Rightarrow> string" where
  "country_as_str c =
     (let s = [cc_first c, cc_second c] in if valid_utf8 s then s else ''??'')"

record client_info =
  ip :: ip_addr
  geo :: "country_code option"

datatype body_state = NotBuffered | Buffered bytes | TooLarge

record normalized_cache =
  nc_path :: "string option"
  nc_query :: "string option"
  nc_scratch :: bytes

definition normalized_default :: normalized_cache where
  "normalized_default = \<lparr>nc_path = None, nc_query = None, nc_scratch = []\<rparr>"

record 'h request_ctx =
  rq_method :: string
  rq_path :: string
  rq_query :: "string option"
  rq_headers :: 'h
  rq_client :: client_info
  rq_body :: body_state
  rq_normalized :: normalized_cache

record 'h response_ctx =
  rs_status :: u16
  rs_headers :: 'h
  rs_client :: client_info
  rs_path :: string
  rs_body :: body_state

datatype waf_decision =
    Allow
  | Block (rule_id: string) (block_status: u16) (reason: string)
  | RateLimited (retry_after_secs: u32)

definition is_allow :: "waf_decision \<Rightarrow> bool" where
  "is_allow d = (case d of Allow \<Rightarrow> True | _ \<Rightarrow> False)"

text \<open>\<open>ControlFlow<WafDecision>\<close>, and what running a stage under \<open>catch_unwind\<close> can give: it
  returns, or it panics; in both cases with the context and the stage's own state as it left them.\<close>

datatype control_flow = Continue | Break waf_decision

datatype 's stage_res = Ret control_flow 's | Panic 's

fun stage_state :: "'s stage_res \<Rightarrow> 's" where
  "stage_state (Ret _ s) = s"
| "stage_state (Panic s) = s"

section \<open>Metrics\<close>

record metrics =
  requests_total :: u64
  allowed_total :: u64
  blocked_total :: u64
  ratelimited_total :: u64
  upstream_errors_total :: u64
  would_block_total :: u64
  whitelisted_total :: u64

definition metrics_default :: metrics where
  "metrics_default = \<lparr>requests_total = 0, allowed_total = 0, blocked_total = 0,
     ratelimited_total = 0, upstream_errors_total = 0, would_block_total = 0, whitelisted_total = 0\<rparr>"

definition m_request :: "metrics \<Rightarrow> metrics" where
  "m_request m = m\<lparr>requests_total := requests_total m + 1\<rparr>"

definition m_record :: "waf_decision \<Rightarrow> metrics \<Rightarrow> metrics" where
  "m_record d m = (case d of
     Allow \<Rightarrow> m\<lparr>allowed_total := allowed_total m + 1\<rparr>
   | Block _ _ _ \<Rightarrow> m\<lparr>blocked_total := blocked_total m + 1\<rparr>
   | RateLimited _ \<Rightarrow> m\<lparr>ratelimited_total := ratelimited_total m + 1\<rparr>)"

definition m_upstream_error :: "metrics \<Rightarrow> metrics" where
  "m_upstream_error m = m\<lparr>upstream_errors_total := upstream_errors_total m + 1\<rparr>"

definition m_would_block :: "metrics \<Rightarrow> metrics" where
  "m_would_block m = m\<lparr>would_block_total := would_block_total m + 1\<rparr>"

definition m_whitelisted :: "metrics \<Rightarrow> metrics" where
  "m_whitelisted m = m\<lparr>whitelisted_total := whitelisted_total m + 1\<rparr>"

lemmas metrics_defs = m_request_def m_record_def m_upstream_error_def m_would_block_def
  m_whitelisted_def

record metrics_snapshot =
  sn_requests :: u64
  sn_allowed :: u64
  sn_blocked :: u64
  sn_ratelimited :: u64
  sn_upstream_errors :: u64
  sn_would_block :: u64
  sn_whitelisted :: u64

definition snapshot :: "metrics \<Rightarrow> metrics_snapshot" where
  "snapshot m = \<lparr>sn_requests = requests_total m, sn_allowed = allowed_total m,
     sn_blocked = blocked_total m, sn_ratelimited = ratelimited_total m,
     sn_upstream_errors = upstream_errors_total m, sn_would_block = would_block_total m,
     sn_whitelisted = whitelisted_total m\<rparr>"

section \<open>The stage contract\<close>

definition ctx_frame :: "'h request_ctx \<Rightarrow> 'h request_ctx \<Rightarrow> bool" where
  "ctx_frame c c' \<longleftrightarrow>
     rq_method c' = rq_method c \<and> rq_path c' = rq_path c \<and> rq_query c' = rq_query c \<and>
     rq_headers c' = rq_headers c \<and> rq_body c' = rq_body c \<and> ip (rq_client c') = ip (rq_client c)"

lemma ctx_frame_refl [simp]: "ctx_frame c c"
  by (simp add: ctx_frame_def)

lemma ctx_frame_trans: "ctx_frame a b \<Longrightarrow> ctx_frame b c \<Longrightarrow> ctx_frame a c"
  by (simp add: ctx_frame_def)

text \<open>A stage is a function of the context and of the pipeline's shared state \<open>'w\<close>.\<close>

type_synonym ('h, 'w) stage = "'h request_ctx \<Rightarrow> 'w \<Rightarrow> ('h request_ctx \<times> 'w) stage_res"

locale waf_stage =
  fixes inspect :: "('h, 'w) stage"
  assumes frame: "ctx_frame c (fst (stage_state (inspect c w)))"
begin

lemma ret_frame: "inspect c w = Ret f (c', w') \<Longrightarrow> ctx_frame c c'"
  using frame [of c w] by simp

lemma panic_frame: "inspect c w = Panic (c', w') \<Longrightarrow> ctx_frame c c'"
  using frame [of c w] by simp

end

end
