(* ===== verification/Config.thy ===== *)
theory Config
  imports Common
begin

text \<open>
  \<open>crates/budu-config\<close>: the configuration records, their defaults, byte sizes (\<open>size.rs\<close>) and
  validation. Reading the file and parsing TOML are parameters of \<open>config_load\<close>. Shown: what a
  size string means on every branch, without wrap-around, and what a validated configuration
  guarantees to the rest of the program.
\<close>

section \<open>Byte sizes\<close>

datatype size_error = EmptySize | InvalidSizeNumber string | UnknownSizeUnit string | SizeOverflow string

definition unit_mult :: "string \<Rightarrow> u64 option" where
  "unit_mult u =
     (if u = '''' \<or> u = ''b'' then Some 1
      else if u = ''k'' \<or> u = ''kb'' then Some 1000
      else if u = ''kib'' then Some (push_bit 10 1)
      else if u = ''m'' \<or> u = ''mb'' then Some 1000000
      else if u = ''mib'' then Some (push_bit 20 1)
      else if u = ''g'' \<or> u = ''gb'' then Some 1000000000
      else if u = ''gib'' then Some (push_bit 30 1)
      else None)"

definition parse_size :: "string \<Rightarrow> size_error + u64" where
  "parse_size s0 =
     (let s = trim s0 in
      if s = [] then Inl EmptySize
      else
        let num = takeWhile is_ascii_digit s; unit = dropWhile is_ascii_digit s in
        case parse_u64 num of
          None \<Rightarrow> Inl (InvalidSizeNumber s)
        | Some n \<Rightarrow>
            (case unit_mult (to_ascii_lowercase (trim unit)) of
               None \<Rightarrow> Inl (UnknownSizeUnit (to_ascii_lowercase (trim unit)))
             | Some mult \<Rightarrow>
                 (case checked_mul (of_nat n) mult of
                    None \<Rightarrow> Inl (SizeOverflow s)
                  | Some v \<Rightarrow> Inr v)))"

datatype size_repr = ReprStr string | ReprInt u64

definition byte_size_deserialize :: "size_repr \<Rightarrow> size_error + u64" where
  "byte_size_deserialize r = (case r of ReprInt n \<Rightarrow> Inr n | ReprStr s \<Rightarrow> parse_size s)"

section \<open>Configuration records\<close>

datatype on_error = Closed | Open

datatype enforcement = EnforceBlock | Detect

record uri =
  u_scheme :: "string option"
  u_authority :: "string option"
  u_path :: string
  u_query :: "string option"
  u_path_and_query :: "string option"

record socket_addr =
  sa_ip :: ip_addr
  sa_port :: u16

record 'n server_config =
  listen :: socket_addr
  upstream :: uri
  client_ip_header :: string
  trusted_peer :: 'n
  on_error :: on_error
  enforcement :: enforcement
  upstream_timeout_secs :: u64
  timezone :: string
  pidfile :: string
  request_id_header :: string

definition default_request_id_header :: string where
  "default_request_id_header = ''X-Request-Id''"

definition default_upstream_timeout :: u64 where
  "default_upstream_timeout = 30"

record limits_config =
  max_uri_len :: nat
  max_header_count :: nat
  max_inspect_body :: u64

record inspect_config =
  content_types :: "string list"
  response_content_types :: "string list"

definition default_response_content_types :: "string list" where
  "default_response_content_types =
     [''text/html'', ''application/json'', ''application/xml'', ''text/xml'', ''text/plain'']"

definition inspect_config_default :: inspect_config where
  "inspect_config_default =
     \<lparr>content_types = [], response_content_types = default_response_content_types\<rparr>"

record ratelimit_config =
  requests_per_sec :: u32
  rl_burst :: u32
  rl_ttl_secs :: u64

record paths_config =
  rules_path :: string
  signatures_path :: string

record log_config =
  log_format :: string
  audit_file :: string

record metrics_config =
  metrics_listen :: "socket_addr option"

record 'n reputation_config =
  blocklist :: "'n list"
  blocklist_file :: string
  blocklist_urls :: "string list"
  refresh_secs :: u64
  allowlist :: "'n list"
  allowlist_file :: string

record scoring_config =
  sc_threshold :: u32
  sc_status :: u16
  sc_msg :: string

definition default_anomaly_status :: u16 where
  "default_anomaly_status = 403"

definition default_anomaly_msg :: string where
  "default_anomaly_msg = ''anomaly score threshold exceeded''"

definition scoring_config_default :: scoring_config where
  "scoring_config_default =
     \<lparr>sc_threshold = 0, sc_status = default_anomaly_status, sc_msg = default_anomaly_msg\<rparr>"

record geoip_config =
  geo_enabled :: bool
  db_path :: string
  allow_countries :: "string list"
  block_countries :: "string list"

record 'n config =
  server :: "'n server_config"
  limits :: limits_config
  inspect_cfg :: inspect_config
  ratelimit :: ratelimit_config
  reputation :: "'n reputation_config"
  metrics_cfg :: metrics_config
  scoring :: scoring_config
  paths :: paths_config
  log_cfg :: log_config
  geoip :: geoip_config

section \<open>Validation and loading\<close>

datatype config_error = ReadError string string | ParseError string | InvalidConfig string

definition validate :: "'n config \<Rightarrow> config_error option" where
  "validate c =
     (let s = server c in
      if u_scheme (upstream s) \<noteq> Some ''http'' \<and> u_scheme (upstream s) \<noteq> Some ''https''
        then Some (InvalidConfig ''server.upstream must be an http(s):// URL'')
      else if u_authority (upstream s) = None
        then Some (InvalidConfig ''server.upstream must include a host[:port]'')
      else if trim (client_ip_header s) = []
        then Some (InvalidConfig ''server.client_ip_header must not be empty'')
      else if max_uri_len (limits c) = 0
        then Some (InvalidConfig ''limits.max_uri_len must be > 0'')
      else if requests_per_sec (ratelimit c) = 0
        then Some (InvalidConfig ''ratelimit.requests_per_sec must be > 0'')
      else if upstream_timeout_secs s = 0
        then Some (InvalidConfig ''server.upstream_timeout_secs must be > 0'')
      else case metrics_listen (metrics_cfg c) of
             Some addr \<Rightarrow>
               if \<not> is_loopback (sa_ip addr)
               then Some (InvalidConfig (''metrics.listen must be a loopback address (got '' @
                      show_ip (sa_ip addr) @ ''); the admin endpoint is unauthenticated and must not be client-facing''))
               else None
           | None \<Rightarrow> None)"

definition parse_toml :: "(string \<Rightarrow> string + 'n config) \<Rightarrow> string \<Rightarrow> config_error + 'n config" where
  "parse_toml from_str text =
     (case from_str text of
        Inl e \<Rightarrow> Inl (ParseError e)
      | Inr cfg \<Rightarrow> (case validate cfg of Some e \<Rightarrow> Inl e | None \<Rightarrow> Inr cfg))"

definition config_load ::
  "(string \<Rightarrow> string + string) \<Rightarrow> (string \<Rightarrow> string + 'n config) \<Rightarrow> string \<Rightarrow> config_error + 'n config" where
  "config_load read from_str path =
     (case read path of
        Inl source \<Rightarrow> Inl (ReadError path source)
      | Inr text \<Rightarrow>
          (case from_str text of
             Inl e \<Rightarrow> Inl (ParseError e)
           | Inr cfg \<Rightarrow> (case validate cfg of Some e \<Rightarrow> Inl e | None \<Rightarrow> Inr cfg)))"

section \<open>Lemmas\<close>

lemma digit_val_is_digit: "digit_val c \<noteq> None \<longleftrightarrow> is_ascii_digit c"
  by (simp add: digit_val_def is_ascii_digit_def)

lemma show_nat_is_digit: "c \<in> set (show_nat n) \<Longrightarrow> is_ascii_digit c"
  using show_nat_digits digit_val_is_digit by blast

lemma takeWhile_digits_show:
  "u = [] \<or> \<not> is_ascii_digit (hd u) \<Longrightarrow> takeWhile is_ascii_digit (show_nat n @ u) = show_nat n"
  by (cases u) (auto simp: takeWhile_append show_nat_is_digit)

lemma dropWhile_digits_show:
  "u = [] \<or> \<not> is_ascii_digit (hd u) \<Longrightarrow> dropWhile is_ascii_digit (show_nat n @ u) = u"
  by (cases u) (auto simp: dropWhile_append show_nat_is_digit)

lemma checked_mul_u64:
  assumes "n \<le> 2 ^ 64 - 1"
  shows "checked_mul (of_nat n :: u64) m =
    (if n * unat m < 2 ^ 64 then Some (of_nat (n * unat m)) else None)"
proof -
  have "unat (of_nat n :: u64) = n"
    using assms by (simp add: unsigned_of_nat take_bit_nat_eq_self)
  then show ?thesis by (simp add: checked_mul_def)
qed

lemma unit_mult_cases:
  "unit_mult u = Some m \<Longrightarrow>
     u \<in> {'''', ''b'', ''k'', ''kb'', ''kib'', ''m'', ''mb'', ''mib'', ''g'', ''gb'', ''gib''}"
  by (auto simp: unit_mult_def split: if_splits)

lemma unit_letters:
  assumes "unit_mult (to_ascii_lowercase u) = Some m" and "c \<in> set u"
  shows "is_ascii c" "\<not> ascii_ws c" "\<not> is_ascii_digit c"
proof -
  have "lower_char c \<in> set (to_ascii_lowercase u)" using assms(2) by simp
  moreover have "list_all is_ascii_lower (to_ascii_lowercase u)"
    using unit_mult_cases [OF assms(1)]
    by (auto simp only: insert_iff empty_iff) (simp_all add: is_ascii_lower_def bv_def)
  ultimately have l: "is_ascii_lower (lower_char c)" unfolding list_all_iff by blast
  show "is_ascii c" "\<not> ascii_ws c" "\<not> is_ascii_digit c"
    using l by (auto simp: lower_char_def is_ascii_lower_def is_ascii_upper_def is_ascii_def
        ascii_ws_def is_ascii_digit_def split: if_splits)
qed

lemma trim_number_unit:
  assumes "unit_mult (to_ascii_lowercase u) = Some m"
  shows "trim (show_nat n @ u) = show_nat n @ u" "trim u = u"
proof -
  have d: "is_ascii c \<and> \<not> ascii_ws c" if "c \<in> set (show_nat n @ u)" for c
    using that unit_letters [OF assms] digit_ascii [OF show_nat_digits] by auto
  show "trim (show_nat n @ u) = show_nat n @ u"
    using d [OF hd_in_set] d [OF last_in_set] by (intro trim_ascii_id) auto
  show "trim u = u"
  proof (cases "u = []")
    case True
    then show ?thesis by (simp add: trim_def trim_end_def trim_start_rev_id)
  next
    case False
    then show ?thesis
      using d [of "hd u"] d [of "last u"] by (intro trim_ascii_id) auto
  qed
qed

section \<open>Properties\<close>

text \<open>C38: a size of \<open>n\<close> units, with the unit in any case, is read as the product when it fits in 64 bits;
  a number beyond 64 bits and a product beyond 64 bits are errors, never a wrapped value.\<close>

theorem parse_size_units:
  assumes "unit_mult (to_ascii_lowercase u) = Some m"
  shows "parse_size (show_nat n @ u) =
    (if n \<ge> 2 ^ 64 then Inl (InvalidSizeNumber (show_nat n @ u))
     else if n * unat m < 2 ^ 64 then Inr (of_nat (n * unat m))
     else Inl (SizeOverflow (show_nat n @ u)))"
proof -
  have "u = [] \<or> \<not> is_ascii_digit (hd u)"
    using unit_letters(3) [OF assms] by (cases u) auto
  then show ?thesis
    using assms trim_number_unit [OF assms]
    by (auto simp: parse_size_def Let_def takeWhile_digits_show dropWhile_digits_show
        parse_unsigned_show_nat checked_mul_u64)
qed

theorem parse_size_units_witness:
  "parse_size ''512KiB'' = Inr 524288 \<and>
   parse_size ''99999999999GiB'' = Inl (SizeOverflow ''99999999999GiB'')"
proof -
  have a: "show_nat 512 @ ''KiB'' = ''512KiB''" by (simp add: show_nat_eval)
  have b: "show_nat 99999999999 @ ''GiB'' = ''99999999999GiB''"
    by (simp add: show_nat_eval)
  have k: "unit_mult (to_ascii_lowercase ''KiB'') = Some 1024" by code_simp
  have g: "unit_mult (to_ascii_lowercase ''GiB'') = Some 1073741824" by code_simp
  have "parse_size ''512KiB'' = Inr 524288"
    using parse_size_units [OF k, of 512] unfolding a by simp
  moreover have "parse_size ''99999999999GiB'' = Inl (SizeOverflow ''99999999999GiB'')"
    using parse_size_units [OF g, of 99999999999] unfolding b by simp
  ultimately show ?thesis by (rule conjI)
qed

text \<open>C37: what loading a configuration guarantees. A configuration is returned exactly when the file is
  read, parses, and has an http(s) upstream with an authority, a non-blank client address header, a
  positive URI limit, request rate and upstream timeout, and an admin address, if any, on loopback.\<close>

theorem config_load_ok:
  "config_load read from_str path = Inr cfg \<longleftrightarrow>
     (\<exists>text. read path = Inr text \<and> from_str text = Inr cfg) \<and>
     u_scheme (upstream (server cfg)) \<in> {Some ''http'', Some ''https''} \<and>
     u_authority (upstream (server cfg)) \<noteq> None \<and>
     trim (client_ip_header (server cfg)) \<noteq> [] \<and>
     0 < max_uri_len (limits cfg) \<and> 0 < requests_per_sec (ratelimit cfg) \<and>
     0 < upstream_timeout_secs (server cfg) \<and>
     (case metrics_listen (metrics_cfg cfg) of None \<Rightarrow> True | Some a \<Rightarrow> is_loopback (sa_ip a))"
proof -
  have "validate cfg = None \<longleftrightarrow>
     u_scheme (upstream (server cfg)) \<in> {Some ''http'', Some ''https''} \<and>
     u_authority (upstream (server cfg)) \<noteq> None \<and>
     trim (client_ip_header (server cfg)) \<noteq> [] \<and>
     0 < max_uri_len (limits cfg) \<and> 0 < requests_per_sec (ratelimit cfg) \<and>
     0 < upstream_timeout_secs (server cfg) \<and>
     (case metrics_listen (metrics_cfg cfg) of None \<Rightarrow> True | Some a \<Rightarrow> is_loopback (sa_ip a))"
    by (auto simp: validate_def Let_def word_neq_0_conv split: option.splits)
  then show ?thesis
    by (auto simp: config_load_def split: sum.splits option.splits)
qed

end
