(* ===== verification/Sanity.thy ===== *)
theory Sanity
  imports Common Config
begin

text \<open>
  \<open>crates/budu-pipeline/src/sanity.rs\<close>: the structural limits. A request passes exactly when its
  URI and header count are within the limits and a \<open>Content-Length\<close>, if there is one, is a 64-bit
  decimal number.
\<close>

record sanity_stage =
  ss_max_uri_len :: nat
  ss_max_header_count :: nat

definition sanity_from_config :: "limits_config \<Rightarrow> sanity_stage" where
  "sanity_from_config cfg =
     \<lparr>ss_max_uri_len = max_uri_len cfg, ss_max_header_count = max_header_count cfg\<rparr>"

definition uri_len :: "'h request_ctx \<Rightarrow> nat" where
  "uri_len ctx =
     length (rq_path ctx) + (case rq_query ctx of None \<Rightarrow> 0 | Some q \<Rightarrow> length q + 1)"

definition content_length_ok :: "('h, 'z) http_deps_scheme \<Rightarrow> bytes \<Rightarrow> bool" where
  "content_length_ok D cl =
     (case hv_to_str D cl of None \<Rightarrow> False | Some s \<Rightarrow> parse_u64 (trim s) \<noteq> None)"

definition sanity_inspect ::
  "('h, 'z) http_deps_scheme \<Rightarrow> sanity_stage \<Rightarrow> ('h, 'w) stage" where
  "sanity_inspect D st ctx w =
     (if ss_max_uri_len st < uri_len ctx then
        Ret (Break (Block ''sanity.uri_len'' 414 ''request URI exceeds configured limit'')) (ctx, w)
      else if ss_max_header_count st < hm_len D (rq_headers ctx) then
        Ret (Break (Block ''sanity.header_count'' 431 ''too many request headers'')) (ctx, w)
      else case hm_get D (rq_headers ctx) ''content-length'' of
        None \<Rightarrow> Ret Continue (ctx, w)
      | Some cl \<Rightarrow>
          if content_length_ok D cl then Ret Continue (ctx, w)
          else Ret (Break (Block ''sanity.content_length'' 400 ''malformed Content-Length'')) (ctx, w))"

lemma sanity_inspect_frame: "ctx_frame c (fst (stage_state (sanity_inspect D st c w)))"
  by (simp add: sanity_inspect_def split: option.split)

interpretation sanity: waf_stage "sanity_inspect D st"
  by unfold_locales (rule sanity_inspect_frame)

lemma sanity_total: "\<exists>f. sanity_inspect D st ctx w = Ret f (ctx, w)"
  by (simp add: sanity_inspect_def split: option.split)

lemma sanity_continue_iff:
  "sanity_inspect D st ctx w = Ret Continue (ctx, w) \<longleftrightarrow>
     uri_len ctx \<le> ss_max_uri_len st \<and> hm_len D (rq_headers ctx) \<le> ss_max_header_count st \<and>
     (\<forall>cl. hm_get D (rq_headers ctx) ''content-length'' = Some cl \<longrightarrow>
        (\<exists>s n. hv_to_str D cl = Some s \<and> parse_u64 (trim s) = Some n))"
  by (auto simp: sanity_inspect_def content_length_ok_def split: option.splits)

end
