(* ===== verification/Instances.thy ===== *)
theory Instances
  imports Common
begin

text \<open>
  Concrete functions for the third-party parameters of \<open>Deps\<close>, used to evaluate the definitions at
  concrete inputs and to show that the named laws can hold: a header map as a list of names and
  values, networks as an address with a prefix length, a bucket that grants \<open>burst\<close> requests per
  address, and a counter cache as a function with a deadline per key.
\<close>

type_synonym hdrs = "(string \<times> bytes) list"
type_synonym cidr = "ip_addr \<times> nat"
type_synonym bucket_table = "(ip_addr \<times> nat) list"
type_synonym counter_cache = "string \<Rightarrow> (counter \<times> u64) option"

definition name_eq :: "string \<Rightarrow> string \<times> bytes \<Rightarrow> bool" where
  "name_eq n e \<longleftrightarrow> eq_ignore_ascii_case n (fst e)"

definition h_get :: "hdrs \<Rightarrow> string \<Rightarrow> bytes option" where
  "h_get h n = map_option snd (find (name_eq n) h)"

definition h_insert :: "hdrs \<Rightarrow> string \<Rightarrow> bytes \<Rightarrow> hdrs" where
  "h_insert h n v = filter (\<lambda>e. \<not> name_eq n e) h @ [(to_ascii_lowercase n, v)]"

definition h_remove :: "hdrs \<Rightarrow> string \<Rightarrow> hdrs" where
  "h_remove h n = filter (\<lambda>e. \<not> name_eq n e) h"

definition h_to_str :: "bytes \<Rightarrow> string option" where
  "h_to_str v = (if list_all (\<lambda>c. bv c = 9 \<or> (32 \<le> bv c \<and> bv c \<le> 126)) v then Some v else None)"

definition n_contains :: "cidr \<Rightarrow> ip_addr \<Rightarrow> bool" where
  "n_contains n a = (case (fst n, a) of
     (V4 x, V4 y) \<Rightarrow> unat x div 2 ^ (32 - snd n) = unat y div 2 ^ (32 - snd n)
   | (V6 x, V6 y) \<Rightarrow> unat x div 2 ^ (128 - snd n) = unat y div 2 ^ (128 - snd n)
   | _ \<Rightarrow> False)"

definition n_of_ip :: "ip_addr \<Rightarrow> cidr" where
  "n_of_ip a = (a, case a of V4 _ \<Rightarrow> 32 | V6 _ \<Rightarrow> 128)"

definition n_parse :: "string \<Rightarrow> cidr option" where
  "n_parse s = (case split_once (CHR ''/'') s of
     None \<Rightarrow> None
   | Some (x, y) \<Rightarrow> (case (parse_ip x, parse_u8 y) of
       (Some (V4 w), Some k) \<Rightarrow> if k \<le> 32 then Some (V4 w, k) else None
     | (Some (V6 w), Some k) \<Rightarrow> if k \<le> 128 then Some (V6 w, k) else None
     | _ \<Rightarrow> None))"

definition b_check ::
  "bucket_table \<Rightarrow> u32 \<Rightarrow> u32 \<Rightarrow> ip_addr \<Rightarrow> u64 \<Rightarrow> (u64 \<times> u32) option \<times> bucket_table" where
  "b_check b rps burst a now =
     (let used = (case map_of b a of None \<Rightarrow> 0 | Some k \<Rightarrow> k) in
      if used < unat burst then (None, (a, Suc used) # b) else (Some (0, 500000000), b))"

definition c_get :: "counter_cache \<Rightarrow> string \<Rightarrow> u64 \<Rightarrow> counter option" where
  "c_get c k now = (case c k of
     None \<Rightarrow> None
   | Some (v, t) \<Rightarrow> if t \<le> now \<and> now - t < ttl v then Some v else None)"

definition c_insert :: "counter_cache \<Rightarrow> string \<Rightarrow> counter \<Rightarrow> u64 \<Rightarrow> counter_cache" where
  "c_insert c k v now = c(k \<mapsto> (v, now))"

definition inst :: "(hdrs, cidr, bucket_table, counter_cache) limit_deps" where
  "inst = \<lparr>hm_get = h_get, hm_iter = (\<lambda>h. h), hm_keys = map fst, hm_len = length,
     hm_insert = h_insert, hm_remove = h_remove, hm_new = [], hv_to_str = h_to_str,
     hname_ok = (\<lambda>n. n \<noteq> []), hvalue_ok = (\<lambda>v. h_to_str v \<noteq> None),
     status_ok = (\<lambda>s. 100 \<le> s \<and> s \<le> 999),
     net_parse = n_parse, net_of_ip = n_of_ip, net_contains = n_contains,
     net_display = (\<lambda>n. show_ip (fst n) @ ''/'' @ show_nat (snd n)),
     bk_new = (\<lambda>_ _. []), bk_check = b_check, bk_count = (\<lambda>b. of_nat (length b)),
     bk_maint = (\<lambda>b _. b),
     cc_new = (\<lambda>_ _. None), cc_get = c_get, cc_insert = c_insert, cc_count = (\<lambda>_. 0),
     cc_maint = (\<lambda>c _. c)\<rparr>"

definition get_request :: "ip_addr \<Rightarrow> string \<Rightarrow> string option \<Rightarrow> hdrs request_ctx" where
  "get_request a p q = \<lparr>rq_method = ''GET'', rq_path = p, rq_query = q, rq_headers = [],
     rq_client = \<lparr>ip = a, geo = None\<rparr>, rq_body = NotBuffered, rq_normalized = normalized_default\<rparr>"

lemma inst_simps [simp]:
  "hm_get inst = h_get" "hm_iter inst h = h" "hm_keys inst = map fst" "hm_len inst = length"
  "hm_insert inst = h_insert" "hm_remove inst = h_remove" "hm_new inst = []"
  "hv_to_str inst = h_to_str" "hname_ok inst n = (n \<noteq> [])" "hvalue_ok inst v = (h_to_str v \<noteq> None)"
  "status_ok inst s = (100 \<le> s \<and> s \<le> 999)"
  "net_parse inst = n_parse" "net_of_ip inst = n_of_ip" "net_contains inst = n_contains"
  "bk_new inst = (\<lambda>_ _. [])" "bk_check inst = b_check" "cc_new inst = (\<lambda>_ _. None)"
  "cc_get inst = c_get" "cc_insert inst = c_insert" "cc_maint inst = (\<lambda>c _. c)"
  "bk_maint inst = (\<lambda>b _. b)"
  by (simp_all add: inst_def)

lemma eq_ignore_case_refl [simp]: "eq_ignore_ascii_case n n"
  by (simp add: eq_ignore_ascii_case_def)

lemma eq_ignore_case_lower [simp]:
  "eq_ignore_ascii_case m (to_ascii_lowercase n) = eq_ignore_ascii_case m n"
  by (simp add: eq_ignore_ascii_case_def comp_def)

lemma eq_ignore_case_sym: "eq_ignore_ascii_case m n = eq_ignore_ascii_case n m"
  by (auto simp: eq_ignore_ascii_case_def)

lemma eq_ignore_case_trans:
  "eq_ignore_ascii_case a b \<Longrightarrow> eq_ignore_ascii_case a c = eq_ignore_ascii_case b c"
  by (simp add: eq_ignore_ascii_case_def)

lemma find_filter_other:
  "\<not> eq_ignore_ascii_case n m \<Longrightarrow> find (name_eq m) (filter (\<lambda>e. \<not> name_eq n e) h) = find (name_eq m) h"
  by (induction h) (auto simp: name_eq_def eq_ignore_ascii_case_def)

lemma find_filter_same:
  "eq_ignore_ascii_case n m \<Longrightarrow> find (name_eq m) (filter (\<lambda>e. \<not> name_eq n e) h) = None"
  by (induction h) (auto simp: name_eq_def eq_ignore_ascii_case_def)

lemma find_append: "find P (xs @ ys) = (case find P xs of None \<Rightarrow> find P ys | Some x \<Rightarrow> Some x)"
  by (induction xs) auto

lemma h_get_insert:
  "h_get (h_insert h n v) m = (if eq_ignore_ascii_case n m then Some v else h_get h m)"
proof (cases "eq_ignore_ascii_case n m")
  case True
  then show ?thesis
    using eq_ignore_case_sym [of m n]
    by (simp add: h_get_def h_insert_def find_append find_filter_same) (simp add: name_eq_def)
next
  case False
  then show ?thesis
    using eq_ignore_case_sym [of m n]
    by (simp add: h_get_def h_insert_def find_append find_filter_other)
       (simp add: name_eq_def split: option.split)
qed

lemma h_get_remove:
  "h_get (h_remove h n) m = (if eq_ignore_ascii_case n m then None else h_get h m)"
  by (simp add: h_get_def h_remove_def find_filter_same find_filter_other)

lemma inst_http_laws: "http_laws inst"
  by (simp add: http_laws_def h_get_insert h_get_remove)

lemma inst_counter_laws: "counter_laws inst"
  by (simp add: counter_laws_def c_get_def c_insert_def)

end
