(* ===== verification/Reputation.thy ===== *)
theory Reputation
  imports Config Instances
begin

text \<open>
  \<open>crates/budu-reputation\<close>: the list of blocked (or trusted) networks with optional expiry, its text
  format, pruning, the blocklist stage, and the country policy of \<open>geoip.rs\<close>. A shared list handle
  is the list itself: reading it and swapping it are one step. The clock and the Cargo feature
  \<open>fail2ban\<close> are arguments; one call reads the clock once. Log lines are not modelled.
\<close>

section \<open>Entries\<close>

record 'n block_entry =
  net :: 'n
  until :: "u64 option"

definition block_perm :: "'n \<Rightarrow> 'n block_entry" where
  "block_perm n = \<lparr>net = n, until = None\<rparr>"

definition active :: "u64 \<Rightarrow> 'n block_entry \<Rightarrow> bool" where
  "active now e = (case until e of None \<Rightarrow> True | Some u \<Rightarrow> u > now)"

definition entry_matches ::
  "('h, 'n, 'z) net_deps_scheme \<Rightarrow> ip_addr \<Rightarrow> u64 \<Rightarrow> 'n block_entry \<Rightarrow> bool" where
  "entry_matches D a now e \<longleftrightarrow> active now e \<and> net_contains D (net e) a"

definition blocks_contain ::
  "('h, 'n, 'z) net_deps_scheme \<Rightarrow> u64 \<Rightarrow> 'n block_entry list \<Rightarrow> ip_addr \<Rightarrow> bool" where
  "blocks_contain D now es a = list_ex (entry_matches D a now) es"

definition prune_expired :: "u64 \<Rightarrow> 'n block_entry list \<Rightarrow> 'n block_entry list" where
  "prune_expired now cur =
     (if list_ex (\<lambda>e. \<not> active now e) cur then filter (active now) cur else cur)"

section \<open>The list format\<close>

fun line_until_tokens :: "string list \<Rightarrow> u64 option \<Rightarrow> u64 option option" where
  "line_until_tokens [] acc = Some acc"
| "line_until_tokens (tok # toks) acc =
     (case strip_prefix ''until='' tok of
        None \<Rightarrow> line_until_tokens toks acc
      | Some v \<Rightarrow> (case parse_u64 v of
          None \<Rightarrow> None
        | Some ts \<Rightarrow> line_until_tokens toks (Some (of_nat ts))))"

definition line_until :: "bool \<Rightarrow> u64 \<Rightarrow> string list \<Rightarrow> u64 option option" where
  "line_until fail2ban now toks =
     (if fail2ban then
        (case line_until_tokens toks None of
           None \<Rightarrow> None
         | Some u \<Rightarrow> (case u of
             Some ts \<Rightarrow> if ts \<le> now then None else Some (Some ts)
           | None \<Rightarrow> Some None))
      else Some None)"

definition parse_net :: "('h, 'n, 'z) net_deps_scheme \<Rightarrow> string \<Rightarrow> 'n option" where
  "parse_net D s = (case net_parse D s of
     Some n \<Rightarrow> Some n
   | None \<Rightarrow> map_option (net_of_ip D) (parse_ip s))"

text \<open>One turn of the loop: \<open>None\<close> is \<open>continue\<close>.\<close>

definition parse_line ::
  "('h, 'n, 'z) net_deps_scheme \<Rightarrow> bool \<Rightarrow> u64 \<Rightarrow> string \<Rightarrow> 'n block_entry option" where
  "parse_line D fail2ban now raw =
     (let line = trim (hd (split_char (CHR ''#'') raw)) in
      if line = [] then None
      else
        let tokens = split_whitespace line;
            net_str = (case tokens of [] \<Rightarrow> [] | t # _ \<Rightarrow> t)
        in case parse_net D net_str of
             None \<Rightarrow> None
           | Some n \<Rightarrow> (case line_until fail2ban now (tl tokens) of
               None \<Rightarrow> None
             | Some u \<Rightarrow> Some \<lparr>net = n, until = u\<rparr>))"

definition parse_blocklist ::
  "('h, 'n, 'z) net_deps_scheme \<Rightarrow> bool \<Rightarrow> u64 \<Rightarrow> string \<Rightarrow> 'n block_entry list" where
  "parse_blocklist D fail2ban now txt = List.map_filter (parse_line D fail2ban now) (lines txt)"

text \<open>\<open>read\<close> is \<open>fs::read_to_string\<close>.\<close>

definition load_file ::
  "('h, 'n, 'z) net_deps_scheme \<Rightarrow> bool \<Rightarrow> (string \<Rightarrow> string + string) \<Rightarrow> u64 \<Rightarrow> string \<Rightarrow>
     string + 'n block_entry list" where
  "load_file D fail2ban read now path = (case read path of
     Inl e \<Rightarrow> Inl e
   | Inr txt \<Rightarrow> Inr (parse_blocklist D fail2ban now txt))"

definition build_list ::
  "('h, 'n, 'z) net_deps_scheme \<Rightarrow> bool \<Rightarrow> (string \<Rightarrow> string + string) \<Rightarrow> u64 \<Rightarrow> 'n list \<Rightarrow> string \<Rightarrow>
     string + 'n block_entry list" where
  "build_list D fail2ban read now nets file =
     (let es = map block_perm nets in
      if trim file = [] then Inr es
      else case load_file D fail2ban read now file of
        Inl e \<Rightarrow> Inl e
      | Inr fs \<Rightarrow> Inr (es @ fs))"

definition build_blocks ::
  "('h, 'n, 'z) net_deps_scheme \<Rightarrow> bool \<Rightarrow> (string \<Rightarrow> string + string) \<Rightarrow> u64 \<Rightarrow> 'n reputation_config \<Rightarrow>
     string + 'n block_entry list" where
  "build_blocks D fail2ban read now cfg =
     build_list D fail2ban read now (blocklist cfg) (blocklist_file cfg)"

definition build_allowlist ::
  "('h, 'n, 'z) net_deps_scheme \<Rightarrow> bool \<Rightarrow> (string \<Rightarrow> string + string) \<Rightarrow> u64 \<Rightarrow> 'n reputation_config \<Rightarrow>
     string + 'n block_entry list" where
  "build_allowlist D fail2ban read now cfg =
     build_list D fail2ban read now (allowlist cfg) (allowlist_file cfg)"

text \<open>\<open>fetch_blocklist_urls\<close>: \<open>client_ok\<close> says whether the HTTP client builds, \<open>fetch\<close> is one request
  with its status check and body; a feed that fails is skipped.\<close>

definition fetch_blocklist_urls ::
  "('h, 'n, 'z) net_deps_scheme \<Rightarrow> bool \<Rightarrow> bool \<Rightarrow> (string \<Rightarrow> bytes option) \<Rightarrow> u64 \<Rightarrow> string list \<Rightarrow>
     'n block_entry list" where
  "fetch_blocklist_urls D fail2ban client_ok fetch now urls =
     (if urls = [] \<or> \<not> client_ok then []
      else concat (map (\<lambda>url. case fetch url of
             None \<Rightarrow> []
           | Some body \<Rightarrow> parse_blocklist D fail2ban now (from_utf8_lossy body)) urls))"

section \<open>The stage\<close>

definition reputation_inspect ::
  "('h, 'n, 'z) net_deps_scheme \<Rightarrow> u64 \<Rightarrow> ('h, 'n block_entry list) stage" where
  "reputation_inspect D now ctx es =
     (if blocks_contain D now es (ip (rq_client ctx)) then
        Ret (Break (Block ''reputation.blocklist'' 403 ''source IP is blocklisted'')) (ctx, es)
      else Ret Continue (ctx, es))"

section \<open>GeoIP\<close>

text \<open>\<open>'g\<close> is the opened database; \<open>iso_of\<close> is \<open>Reader::lookup\<close> with \<open>decode\<close>: the ISO code of an
  address, \<open>None\<close> for a miss or an error.\<close>

record 'g geo_stage =
  gs_reader :: 'g
  gs_allow :: "(char \<times> char) list"
  gs_block :: "(char \<times> char) list"

definition to_code :: "string \<Rightarrow> (char \<times> char) option" where
  "to_code s = (case s of [x, y] \<Rightarrow> Some (upper_char x, upper_char y) | _ \<Rightarrow> None)"

definition to_codes :: "string list \<Rightarrow> (char \<times> char) list" where
  "to_codes cs = List.map_filter (\<lambda>s. to_code (trim s)) cs"

datatype geo_error = GeoEmptyPath | GeoOpen string

definition geo_from_config ::
  "(string \<Rightarrow> string + 'g) \<Rightarrow> geoip_config \<Rightarrow> geo_error + 'g geo_stage option" where
  "geo_from_config open_db cfg =
     (if \<not> geo_enabled cfg then Inr None
      else if trim (db_path cfg) = [] then Inl GeoEmptyPath
      else case open_db (db_path cfg) of
        Inl e \<Rightarrow> Inl (GeoOpen e)
      | Inr g \<Rightarrow> Inr (Some \<lparr>gs_reader = g, gs_allow = to_codes (allow_countries cfg),
                   gs_block = to_codes (block_countries cfg)\<rparr>))"

definition geo_lookup ::
  "('g \<Rightarrow> ip_addr \<Rightarrow> string option) \<Rightarrow> 'g geo_stage \<Rightarrow> ip_addr \<Rightarrow> country_code option" where
  "geo_lookup iso_of st a = (case iso_of (gs_reader st) a of
     None \<Rightarrow> None
   | Some code \<Rightarrow>
       map_option (\<lambda>(x, y). \<lparr>cc_first = x, cc_second = y\<rparr>) (to_code code))"

definition code_of :: "country_code \<Rightarrow> char \<times> char" where
  "code_of c = (cc_first c, cc_second c)"

definition country_decision ::
  "country_code option \<Rightarrow> (char \<times> char) list \<Rightarrow> (char \<times> char) list \<Rightarrow> bool" where
  "country_decision g allow block = (case g of
     Some c \<Rightarrow>
       if allow \<noteq> [] then code_of c \<in> set allow else code_of c \<notin> set block
   | None \<Rightarrow> allow = [])"

definition geo_inspect ::
  "('g \<Rightarrow> ip_addr \<Rightarrow> string option) \<Rightarrow> 'g geo_stage \<Rightarrow> ('h, 'w) stage" where
  "geo_inspect iso_of st ctx w =
     (let g = geo_lookup iso_of st (ip (rq_client ctx));
          ctx' = ctx\<lparr>rq_client := (rq_client ctx)\<lparr>geo := g\<rparr>\<rparr>
      in if country_decision g (gs_allow st) (gs_block st) then Ret Continue (ctx', w)
         else Ret (Break (Block ''geoip.country'' 403 ''source country not permitted'')) (ctx', w))"

section \<open>Stage contracts\<close>

lemma reputation_inspect_frame: "ctx_frame c (fst (stage_state (reputation_inspect D now c w)))"
  by (simp add: reputation_inspect_def)

interpretation reputation: waf_stage "reputation_inspect D now"
  by unfold_locales (rule reputation_inspect_frame)

lemma geo_inspect_frame: "ctx_frame c (fst (stage_state (geo_inspect iso_of st c w)))"
  by (simp add: geo_inspect_def ctx_frame_def Let_def)

interpretation geoip: waf_stage "geo_inspect iso_of st"
  by unfold_locales (rule geo_inspect_frame)

section \<open>Expiry\<close>

text \<open>The contract of a set whose members expire: maintenance at a time no later than the query is
  not observable, and a member that is gone stays gone.\<close>

locale expiring_set =
  fixes live :: "'w \<Rightarrow> 't::order \<Rightarrow> 'k \<Rightarrow> bool"
    and maintain :: "'t \<Rightarrow> 'w \<Rightarrow> 'w"
  assumes maintain_live: "now \<le> t \<Longrightarrow> live (maintain now w) t k = live w t k"
    and live_antimono: "t \<le> t' \<Longrightarrow> live w t' k \<Longrightarrow> live w t k"
begin

lemma maintain_many: "\<forall>now\<in>set ts. now \<le> t \<Longrightarrow> live (fold maintain ts w) t k = live w t k"
  by (induction ts arbitrary: w) (simp_all add: maintain_live)

lemma dead_stays_dead:
  "\<not> live w t k \<Longrightarrow> t \<le> t' \<Longrightarrow> \<forall>now\<in>set ts. now \<le> t' \<Longrightarrow> \<not> live (fold maintain ts w) t' k"
  using live_antimono maintain_many by blast

end

lemma active_antimono: "t \<le> t' \<Longrightarrow> active t' e \<Longrightarrow> active t e"
  by (auto simp: active_def split: option.splits)

lemma prune_expired_filter: "prune_expired now cur = filter (active now) cur"
  by (auto simp: prune_expired_def list_ex_iff filter_id_conv)

lemma set_prune_expired: "set (prune_expired now cur) = {e \<in> set cur. active now e}"
  by (auto simp: prune_expired_filter)

lemma blocks_contain_iff:
  "blocks_contain D now es a \<longleftrightarrow> (\<exists>e\<in>set es. active now e \<and> net_contains D (net e) a)"
  by (auto simp: blocks_contain_def entry_matches_def list_ex_iff)

interpretation blocks: expiring_set "\<lambda>es now a. blocks_contain D now es a" prune_expired
  by unfold_locales
     (auto simp: blocks_contain_iff set_prune_expired dest: active_antimono)

section \<open>The list format is line-local\<close>

lemma split_char_hd: "hd (split_char c s) = takeWhile (\<lambda>x. x \<noteq> c) s"
  by (induction c s rule: split_char.induct) (auto simp: neq_Nil_conv split: list.splits)

lemma parse_line_cong:
  "trim (takeWhile (\<lambda>x. x \<noteq> CHR ''#'') a) = trim (takeWhile (\<lambda>x. x \<noteq> CHR ''#'') b) \<Longrightarrow>
     parse_line D f now a = parse_line D f now b"
  by (simp add: parse_line_def split_char_hd)

lemma takeWhile_no_hash: "c \<notin> set s \<Longrightarrow> takeWhile (\<lambda>x. x \<noteq> c) s = s"
  by (induction s) auto

lemma parse_line_crlf [simp]:
  "parse_line D f now (unwrap_or (strip_suffix [cr] l) l) = parse_line D f now l"
proof (cases "strip_suffix [cr] l")
  case (Some a)
  then have "l = a @ [cr]" by (simp add: strip_suffix_Some_iff)
  moreover have "cr \<noteq> CHR ''#''" by code_simp
  ultimately have "trim (takeWhile (\<lambda>x. x \<noteq> CHR ''#'') a) = trim (takeWhile (\<lambda>x. x \<noteq> CHR ''#'') l)"
    by (cases "CHR ''#'' \<in> set a")
       (simp_all add: takeWhile_append1 [where x = "CHR ''#''"] takeWhile_no_hash trim_snoc_ws)
  from parse_line_cong [OF this] Some show ?thesis by (simp add: unwrap_or_def)
qed (simp add: unwrap_or_def)

lemma parse_blocklist_unlines:
  "\<forall>l\<in>set ls. nl \<notin> set l \<Longrightarrow>
     parse_blocklist D f now (unlines ls) = List.map_filter (parse_line D f now) ls"
  by (simp add: parse_blocklist_def lines_unlines List.map_filter_def comp_def filter_map)

text \<open>A timed entry as it is written in a list file.\<close>

definition timed_line :: "string \<Rightarrow> u64 \<Rightarrow> string" where
  "timed_line s u = s @ '' until='' @ show_nat (unat u)"

lemma ws_free_ascii:
  "\<forall>c\<in>set s. is_ascii c \<and> \<not> ascii_ws c \<Longrightarrow> ws_free s"
  by (induction s) (auto simp: ws_free_Cons ws_len_ascii simp del: ws_len.simps, simp add: ws_free_def)

lemma show_nat_ws_free: "ws_free (''until='' @ show_nat n)"
  by (rule ws_free_ascii)
     (use digit_ascii [OF show_nat_digits] in \<open>auto simp: is_ascii_def ascii_ws_def bv_def\<close>)

lemma digit_not_hash: "digit_val c \<noteq> None \<Longrightarrow> c \<noteq> CHR ''#''"
  by (auto simp: digit_val_def bv_def)

lemma digit_not_nl: "digit_val c \<noteq> None \<Longrightarrow> c \<noteq> nl"
  by (auto simp: digit_val_def nl_def bv_char_of)

lemma nl_chars:
  "nl \<noteq> CHR '' ''" "nl \<noteq> CHR ''u''" "nl \<noteq> CHR ''n''" "nl \<noteq> CHR ''t''" "nl \<noteq> CHR ''i''"
  "nl \<noteq> CHR ''l''" "nl \<noteq> CHR ''=''"
  by code_simp+

lemma timed_line_tokens:
  assumes "ws_free s" "s \<noteq> []"
  shows "trim (timed_line s u) = timed_line s u"
    and "split_whitespace (timed_line s u) = [s, ''until='' @ show_nat (unat u)]"
proof -
  have j: "timed_line s u = join '' '' [s, ''until='' @ show_nat (unat u)]"
    by (simp add: timed_line_def)
  show "split_whitespace (timed_line s u) = [s, ''until='' @ show_nat (unat u)]"
    unfolding j using assms show_nat_ws_free by (intro split_whitespace_join) auto
  have "ws_len s = 0" using assms(1) by (simp add: ws_free_def)
  then have "ws_len (timed_line s u) = 0"
    using ws_len_0_then_space assms(2) by (simp add: timed_line_def del: ws_len.simps)
  moreover have "last (timed_line s u) \<in> set (show_nat (unat u))"
    by (simp add: timed_line_def)
  then have "is_ascii (last (timed_line s u)) \<and> \<not> ascii_ws (last (timed_line s u))"
    using digit_ascii [OF show_nat_digits] by blast
  ultimately show "trim (timed_line s u) = timed_line s u"
    by (intro trim_id) (auto simp: timed_line_def)
qed

lemma parse_timed_line:
  assumes "ws_free s" "s \<noteq> []" "CHR ''#'' \<notin> set s" "parse_net D s = Some n"
  shows "parse_line D True now (timed_line s u) =
    (if now < u then Some \<lparr>net = n, until = Some u\<rparr> else None)"
proof -
  have "CHR ''#'' \<notin> set (timed_line s u)"
    using assms(3) digit_not_hash [OF show_nat_digits] by (auto simp: timed_line_def)
  then have line: "trim (hd (split_char (CHR ''#'') (timed_line s u))) = timed_line s u"
    using timed_line_tokens(1) [OF assms(1,2)] by (simp add: split_char_hd takeWhile_no_hash)
  have "strip_prefix ''until='' (''until='' @ show_nat (unat u)) = Some (show_nat (unat u))"
    by (simp only: strip_prefix_Some_iff)
  moreover have "parse_u64 (show_nat (unat u)) = Some (unat u)"
    using unsigned_less [of u, where ?'a = nat] by (simp add: parse_unsigned_show_nat)
  ultimately have "line_until_tokens [''until='' @ show_nat (unat u)] None = Some (Some u)"
    by simp
  then have "line_until True now [''until='' @ show_nat (unat u)] = (if now < u then Some (Some u) else None)"
    by (simp add: line_until_def linorder_not_less del: line_until_tokens.simps)
  with assms(2,4) line timed_line_tokens(2) [OF assms(1,2), of u] show ?thesis
    by (simp add: parse_line_def timed_line_def)
qed

section \<open>Properties\<close>

text \<open>C18: pruning is not observable. Whatever maintenance ticks a list has seen, all at or before the time
  of a request, the stage answers the request as it would with the list as it was loaded; and an
  address the list no longer blocks is not blocked again at a later time.\<close>

theorem pruning_unobservable:
  assumes "\<forall>now\<in>set ticks. now \<le> t"
  shows "stage_state (reputation_inspect D t ctx (fold prune_expired ticks es)) =
      (ctx, fold prune_expired ticks es) \<and>
    ((\<exists>d. reputation_inspect D t ctx (fold prune_expired ticks es) =
        Ret (Break d) (ctx, fold prune_expired ticks es)) \<longleftrightarrow>
      (\<exists>e\<in>set es. active t e \<and> net_contains D (net e) (ip (rq_client ctx)))) \<and>
    (\<forall>t0\<le>t. \<not> blocks_contain D t0 es a \<longrightarrow> \<not> blocks_contain D t (fold prune_expired ticks es) a)"
  using assms blocks.maintain_many [of ticks t D es] blocks.dead_stays_dead [of D _ es a t ticks]
  by (auto simp: reputation_inspect_def blocks_contain_iff [symmetric])

theorem pruning_unobservable_witness:
  "\<not> blocks_contain inst 60
     (fold prune_expired [10, 50] [\<lparr>net = (V4 7, 32), until = Some 40\<rparr>]) (V4 7)"
proof -
  have "\<not> blocks_contain inst 45 [\<lparr>net = (V4 7, 32), until = Some 40\<rparr>] (V4 7)"
    by (simp add: blocks_contain_def entry_matches_def active_def)
  moreover have "\<forall>now\<in>set [10, 50]. now \<le> (60 :: u64)" by simp
  ultimately show ?thesis
    using pruning_unobservable [of "[10, 50]" 60 inst _ "[\<lparr>net = (V4 7, 32), until = Some 40\<rparr>]" "V4 7"]
    by (auto dest: spec [where x = 45])
qed



definition country_listed :: "string \<Rightarrow> string list \<Rightarrow> bool" where
  "country_listed code cs \<longleftrightarrow> list_ex (\<lambda>c. eq_ignore_ascii_case (trim c) code) cs"

definition has_country :: "string list \<Rightarrow> bool" where
  "has_country cs \<longleftrightarrow> list_ex (\<lambda>c. length (trim c) = 2) cs"

lemma to_code_Some: "to_code s = Some p \<longleftrightarrow> (\<exists>x y. s = [x, y] \<and> p = (upper_char x, upper_char y))"
  by (auto simp: to_code_def split: list.splits)

lemma to_code_eq_iff:
  "length b = 2 \<Longrightarrow> to_code a = to_code b \<longleftrightarrow> eq_ignore_ascii_case a b"
  by (auto simp: to_code_def eq_ignore_ascii_case_def upper_char_eq_iff numeral_2_eq_2 length_Suc_conv
      split: list.splits)

lemma to_code_in_codes:
  "length code = 2 \<Longrightarrow> to_code code = Some p \<Longrightarrow> p \<in> set (to_codes cs) \<longleftrightarrow> country_listed code cs"
  by (auto simp: to_codes_def set_map_filter_iff country_listed_def list_ex_iff simp flip: to_code_eq_iff)

lemma to_codes_Nil_iff: "to_codes cs = [] \<longleftrightarrow> \<not> has_country cs"
proof -
  have "to_code s = None \<longleftrightarrow> length s \<noteq> 2" for s
    by (auto simp: to_code_def split: list.splits)
  then show ?thesis
    by (auto simp: to_codes_def List.map_filter_def filter_empty_conv has_country_def list_ex_iff)
qed



end
