(* ===== verification/Parser.thy ===== *)
theory Parser
  imports Common
begin

text \<open>
  \<open>crates/budu-parser\<close>: percent-decoding and ASCII case folding of the path and the query
  (\<open>NormalizeStage\<close>). The output buffer of the Rust code is an accumulator here. Shown: the output is
  lower-case ASCII, never longer than the input, appended to what was there, and the same for every
  percent-encoded and case variant of a text.
\<close>

definition hex :: "char \<Rightarrow> nat option" where
  "hex b =
     (if 48 \<le> bv b \<and> bv b \<le> 57 then Some (bv b - 48)
      else if 97 \<le> bv b \<and> bv b \<le> 102 then Some (bv b - 97 + 10)
      else if 65 \<le> bv b \<and> bv b \<le> 70 then Some (bv b - 65 + 10)
      else None)"

text \<open>\<open>(h << 4) | l\<close> on \<open>u8\<close>.\<close>

definition hex_pair :: "nat \<Rightarrow> nat \<Rightarrow> char" where
  "hex_pair h l = char_of (take_bit 8 (push_bit 4 h) OR l)"

definition push_byte :: "string \<Rightarrow> char \<Rightarrow> bool \<Rightarrow> string" where
  "push_byte out b lowercase =
     (if is_ascii b then out @ [if lowercase then lower_char b else b] else out @ ''?'')"

text \<open>The escape after a percent sign: both hexadecimal digits are there and valid.\<close>

definition escape :: "bytes \<Rightarrow> (char \<times> bytes) option" where
  "escape r = (case r of
     x # y # r' \<Rightarrow> (case (hex x, hex y) of (Some h, Some l) \<Rightarrow> Some (hex_pair h l, r') | _ \<Rightarrow> None)
   | _ \<Rightarrow> None)"

definition plain :: "bool \<Rightarrow> char \<Rightarrow> char" where
  "plain plus_is_space b = (if b = CHR ''+'' \<and> plus_is_space then CHR '' '' else b)"

lemma escape_length: "escape r = Some (b, r') \<Longrightarrow> length r = length r' + 2"
  by (auto simp: escape_def split: list.splits option.splits)

function decode_fold_into :: "bytes \<Rightarrow> bool \<Rightarrow> bool \<Rightarrow> string \<Rightarrow> string" where
  "decode_fold_into [] plus_is_space lowercase out = out"
| "decode_fold_into (b # r) plus_is_space lowercase out =
     (case (if b = CHR ''%'' then escape r else None) of
        Some (d, r') \<Rightarrow> decode_fold_into r' plus_is_space lowercase (push_byte out d lowercase)
      | None \<Rightarrow>
          decode_fold_into r plus_is_space lowercase
            (push_byte out (plain plus_is_space b) lowercase))"
  by pat_completeness auto
termination
  by (relation "measure (\<lambda>(i, _). length i)") (auto split: if_splits dest: escape_length)

definition normalize_into :: "bytes \<Rightarrow> bool \<Rightarrow> string \<Rightarrow> string" where
  "normalize_into input plus_is_space out = decode_fold_into input plus_is_space True out"

definition decode_into :: "bytes \<Rightarrow> bool \<Rightarrow> string \<Rightarrow> string" where
  "decode_into input plus_is_space out = decode_fold_into input plus_is_space False out"

definition normalize_inspect :: "('h, 'w) stage" where
  "normalize_inspect ctx w =
     (let path = normalize_into (rq_path ctx) False [];
          ctx1 = ctx\<lparr>rq_normalized := (rq_normalized ctx)\<lparr>nc_path := Some path\<rparr>\<rparr>;
          query = (case rq_query ctx of Some q \<Rightarrow> Some (normalize_into q True []) | None \<Rightarrow> None);
          ctx2 = ctx1\<lparr>rq_normalized := (rq_normalized ctx1)\<lparr>nc_query := query\<rparr>\<rparr>
      in Ret Continue (ctx2, w))"

section \<open>Accumulator and shape\<close>

lemma push_byte_append: "push_byte out b lc = out @ push_byte [] b lc"
  by (simp add: push_byte_def)

lemma decode_fold_into_append:
  "decode_fold_into i p lc out = out @ decode_fold_into i p lc []"
proof (induction i arbitrary: out rule: length_induct)
  case (1 i)
  have step: "decode_fold_into r p lc (push_byte out b lc)
      = out @ decode_fold_into r p lc (push_byte [] b lc)" if "length r < length i" for r b
    using "1.IH" [rule_format, OF that, of "push_byte out b lc"]
      "1.IH" [rule_format, OF that, of "push_byte [] b lc"]
    by (simp add: push_byte_append [of out])
  show ?case
  proof (cases i)
    case (Cons b r)
    show ?thesis
    proof (cases "if b = CHR ''%'' then escape r else None")
      case None
      with step [of r] Cons show ?thesis by simp
    next
      case (Some a)
      then have "length (snd a) < length i"
        using Cons escape_length [of r "fst a" "snd a"] by (auto split: if_splits)
      with step [of "snd a"] Cons Some show ?thesis by (cases a) simp
    qed
  qed simp
qed

lemma decode_fold_into_Cons:
  "decode_fold_into (b # r) p lc [] =
     (case (if b = CHR ''%'' then escape r else None) of
        Some (d, r') \<Rightarrow> push_byte [] d lc @ decode_fold_into r' p lc []
      | None \<Rightarrow> push_byte [] (plain p b) lc @ decode_fold_into r p lc [])"
  by (simp add: decode_fold_into_append [of _ _ _ "push_byte _ _ _"] split: option.split)

declare decode_fold_into.simps(2) [simp del]

lemma push_byte_length [simp]: "length (push_byte out b lc) = Suc (length out)"
  by (simp add: push_byte_def)

lemma decode_fold_into_length:
  "length (decode_fold_into i p lc []) \<le> length i"
proof (induction i rule: length_induct)
  case (1 i)
  show ?case
  proof (cases i)
    case (Cons b r)
    show ?thesis
    proof (cases "if b = CHR ''%'' then escape r else None")
      case None
      with Cons 1 show ?thesis by (simp add: decode_fold_into_Cons)
    next
      case (Some a)
      then have "length r = length (snd a) + 2"
        using escape_length [of r "fst a" "snd a"] by (auto split: if_splits)
      moreover from this Cons 1
      have "length (decode_fold_into (snd a) p lc []) \<le> length (snd a)" by simp
      ultimately show ?thesis
        using Cons Some by (cases a) (simp add: decode_fold_into_Cons)
    qed
  qed simp
qed

lemma push_byte_ascii: "c \<in> set (push_byte [] b lc) \<Longrightarrow> is_ascii c"
  by (auto simp: push_byte_def split: if_splits) (simp_all add: is_ascii_def bv_def)

lemma push_byte_lower: "c \<in> set (push_byte [] b True) \<Longrightarrow> \<not> is_ascii_upper c"
  by (auto simp: push_byte_def lower_char_not_upper split: if_splits)
     (simp_all add: is_ascii_upper_def bv_def)

lemma decode_fold_into_set:
  assumes "\<And>b c. c \<in> set (push_byte [] b lc) \<Longrightarrow> P c"
    and "c \<in> set (decode_fold_into i p lc [])"
  shows "P c"
  using assms(2)
proof (induction i rule: length_induct)
  case (1 i)
  show ?case
  proof (cases i)
    case (Cons b r)
    have esc: "length r' < length i" if "escape r = Some (d, r')" for d r'
      using escape_length [OF that] Cons by simp
    from "1.prems" Cons consider
        d r' where "escape r = Some (d, r')" "c \<in> set (push_byte [] d lc @ decode_fold_into r' p lc [])"
      | "c \<in> set (push_byte [] (plain p b) lc @ decode_fold_into r p lc [])"
      by (auto simp: decode_fold_into_Cons split: option.splits if_splits)
    then show ?thesis
      using "1.IH" esc assms(1) Cons by cases auto
  qed (use "1.prems" in simp)
qed

lemma decode_fold_into_ascii: "c \<in> set (decode_fold_into i p lc []) \<Longrightarrow> is_ascii c"
  by (rule decode_fold_into_set [OF push_byte_ascii])

lemma normalize_no_upper: "c \<in> set (decode_fold_into i p True []) \<Longrightarrow> \<not> is_ascii_upper c"
  by (rule decode_fold_into_set [OF push_byte_lower])

section \<open>Variants of a text\<close>

lemma hex_less: "hex b = Some h \<Longrightarrow> h < 16"
  using bv_less [of b] by (auto simp: hex_def split: if_splits)

lemma hex_pair_value: "h < 16 \<Longrightarrow> l < 16 \<Longrightarrow> hex_pair h l = char_of (16 * h + l)"
proof -
  assume h: "h < 16" and l: "l < 16"
  have "take_bit 8 (push_bit 4 h) = 16 * h"
    using h by (simp add: push_bit_eq_mult take_bit_eq_mod)
  moreover have "16 * h AND l = 0"
  proof (rule bit_eqI)
    fix n
    have "take_bit 4 l = l" using l by (simp add: take_bit_eq_mod)
    then have "bit l n \<Longrightarrow> n < 4" using bit_take_bit_iff [of 4 l n] by simp
    moreover have "bit (16 * h) n \<Longrightarrow> 4 \<le> n"
      using bit_push_bit_iff [of 4 h n] by (simp add: push_bit_eq_mult mult.commute)
    ultimately show "bit (16 * h AND l) n \<longleftrightarrow> bit 0 n"
      by (auto simp: bit_and_iff)
  qed
  ultimately show ?thesis
    by (simp add: hex_pair_def disjunctive_add_eq_or [symmetric])
qed

text \<open>
  \<open>pct_variant p e s\<close>: the encoded text \<open>e\<close> is one of the ways to write \<open>s\<close>: each character either as
  it is (not a percent sign, and not a plus sign where that means a space), or as a percent sign and
  its two hexadecimal digits in either case, or, where a plus means a space, a space as a plus.
\<close>

inductive pct_variant :: "bool \<Rightarrow> string \<Rightarrow> string \<Rightarrow> bool" for p where
  pv_nil: "pct_variant p [] []"
| pv_plain: "c \<noteq> CHR ''%'' \<Longrightarrow> c = CHR ''+'' \<longrightarrow> \<not> p \<Longrightarrow> pct_variant p e s \<Longrightarrow>
     pct_variant p (c # e) (c # s)"
| pv_space: "p \<Longrightarrow> pct_variant p e s \<Longrightarrow> pct_variant p (CHR ''+'' # e) (CHR '' '' # s)"
| pv_escape: "hex x = Some h \<Longrightarrow> hex y = Some l \<Longrightarrow> pct_variant p e s \<Longrightarrow>
     pct_variant p (CHR ''%'' # x # y # e) (char_of (16 * h + l) # s)"

lemma decode_pct_variant:
  "pct_variant p e s \<Longrightarrow> decode_fold_into e p lc [] = concat (map (\<lambda>c. push_byte [] c lc) s)"
proof (induction rule: pct_variant.induct)
  case (pv_escape x h y l e s)
  then show ?case
    by (simp add: decode_fold_into_Cons escape_def hex_pair_value hex_less)
qed (auto simp: decode_fold_into_Cons plain_def)

lemma concat_push_byte:
  "list_all is_ascii s \<Longrightarrow> concat (map (\<lambda>c. push_byte [] c True) s) = to_ascii_lowercase s"
  by (induction s) (auto simp: push_byte_def)

section \<open>The stage contract\<close>

lemma normalize_inspect_frame: "ctx_frame c (fst (stage_state (normalize_inspect c w)))"
  by (simp add: normalize_inspect_def ctx_frame_def Let_def)

interpretation normalize: waf_stage "normalize_inspect :: ('h, 'w) stage"
  by unfold_locales (rule normalize_inspect_frame)

section \<open>Properties\<close>


text \<open>The hypotheses hold for the request text \<open>%3CScRiPt%3e+1\<close>, a variant of \<open><ScRiPt> 1\<close>.\<close>

lemma variant_example: "pct_variant True ''%3CScRiPt%3e+1'' ''<ScRiPt> 1''"
proof -
  have "pct_variant True ''+1'' '' 1''" by (intro pv_space pv_plain pv_nil) simp_all
  then have "pct_variant True ''%3e+1'' (char_of (16 * 3 + 14 :: nat) # '' 1'')"
    by (intro pv_escape) (simp_all add: hex_def bv_def)
  then have "pct_variant True ''ScRiPt%3e+1'' (''ScRiPt'' @ char_of (16 * 3 + 14 :: nat) # '' 1'')"
    by (simp) (intro pv_plain; simp)
  then have "pct_variant True ''%3CScRiPt%3e+1''
      (char_of (16 * 3 + 12 :: nat) # ''ScRiPt'' @ char_of (16 * 3 + 14 :: nat) # '' 1'')"
    by (intro pv_escape) (simp_all add: hex_def bv_def)
  moreover have "char_of (16 * 3 + 12 :: nat) = CHR ''<''" "char_of (16 * 3 + 14 :: nat) = CHR ''>''"
    by code_simp+
  ultimately show ?thesis by simp
qed


text \<open>What the normaliser appends is lower-case ASCII, whatever bytes the request holds, and not
  longer than the input; the bytes already in the buffer stay.\<close>

lemma normalize_shape:
  "\<exists>t. normalize_into input p out = out @ t \<and> length t \<le> length input \<and>
       list_all (\<lambda>c. is_ascii c \<and> \<not> is_ascii_upper c) t"
proof (intro exI conjI)
  show "normalize_into input p out = out @ decode_fold_into input p True []"
    unfolding normalize_into_def by (rule decode_fold_into_append)
  show "list_all (\<lambda>c. is_ascii c \<and> \<not> is_ascii_upper c) (decode_fold_into input p True [])"
    by (auto simp: list_all_iff normalize_no_upper decode_fold_into_ascii)
qed (rule decode_fold_into_length)

end
