(* ===== verification/Signatures.thy ===== *)
theory Signatures
  imports Parser Instances
begin

text \<open>
  \<open>crates/budu-signatures\<close>: the signature database (a literal automaton and a regular-expression set
  with their metadata), its compilation and loading, the built-in signatures, the scan and the stage
  with its haystack. \<open>aho-corasick\<close> and \<open>regex\<close> are parameters (\<open>match_deps\<close>) with their documented
  laws; a shared database handle is the database itself. An index out of range and \<open>expect\<close> on an
  error are panics, the value \<open>None\<close> of the outer option.
\<close>

section \<open>The matchers\<close>

text \<open>\<open>aho_find\<close> gives the pattern of the match found; \<open>rset_matches\<close> the indices of the patterns that
  match, ascending; \<open>bytes_match\<close> is what one pattern matches, built with \<open>unicode(false)\<close>.\<close>

record ('a, 'r) match_deps =
  aho_new :: "string list \<Rightarrow> string + 'a"
  aho_find :: "'a \<Rightarrow> string \<Rightarrow> nat option"
  rset_new :: "string list \<Rightarrow> string + 'r"
  rset_matches :: "'r \<Rightarrow> string \<Rightarrow> nat list"
  bytes_match :: "string \<Rightarrow> string \<Rightarrow> bool"

definition aho_laws :: "('a, 'r, 'z) match_deps_scheme \<Rightarrow> bool" where
  "aho_laws M \<longleftrightarrow> (\<forall>ps m hay. aho_new M ps = Inr m \<longrightarrow>
     (\<forall>i. aho_find M m hay = Some i \<longrightarrow> i < length ps \<and> contains_str hay (ps ! i)) \<and>
     (aho_find M m hay = None \<longrightarrow> (\<forall>p\<in>set ps. \<not> contains_str hay p)))"

definition rset_laws :: "('a, 'r, 'z) match_deps_scheme \<Rightarrow> bool" where
  "rset_laws M \<longleftrightarrow> (\<forall>ps m hay. rset_new M ps = Inr m \<longrightarrow>
     rset_matches M m hay = filter (\<lambda>i. bytes_match M (ps ! i) hay) [0..<length ps])"

section \<open>Signatures and their compilation\<close>

record signature =
  sig_id :: string
  sig_literal :: "string option"
  sig_regex :: "string option"
  sig_status :: u16
  sig_reason :: string

definition default_sig_status :: u16 where
  "default_sig_status = 403"

datatype signature_error = SigRead string | SigParse string | SigCompile string | SigEmpty

record sig_meta =
  sm_id :: string
  sm_status :: u16
  sm_reason :: string

record sig_hit =
  hit_rule_id :: string
  hit_status :: u16
  hit_reason :: string

record ('a, 'r) signature_db =
  db_literals :: 'a
  db_literal_meta :: "sig_meta list"
  db_regexes :: 'r
  db_regex_meta :: "sig_meta list"
  db_count :: nat

definition sig_meta_of :: "signature \<Rightarrow> sig_meta" where
  "sig_meta_of s = \<lparr>sm_id = sig_id s, sm_status = sig_status s,
     sm_reason = (if sig_reason s = [] then sig_id s else sig_reason s)\<rparr>"

text \<open>The loop over the signatures, with its four vectors.\<close>

record sig_acc =
  literal_pats :: "string list"
  literal_meta :: "sig_meta list"
  regex_pats :: "string list"
  regex_meta :: "sig_meta list"

fun compile_sigs ::
  "('h, 'z) http_deps_scheme \<Rightarrow> signature list \<Rightarrow> sig_acc \<Rightarrow> signature_error + sig_acc" where
  "compile_sigs D [] acc = Inr acc"
| "compile_sigs D (s # ss) acc =
     (if \<not> status_ok D (sig_status s) then
        Inl (SigCompile (sig_id s @ '': bad status '' @ show_nat (unat (sig_status s))))
      else case sig_literal s of
        Some lit \<Rightarrow> compile_sigs D ss (acc\<lparr>literal_pats := literal_pats acc @ [to_ascii_lowercase lit],
                      literal_meta := literal_meta acc @ [sig_meta_of s]\<rparr>)
      | None \<Rightarrow> (case sig_regex s of
          Some re \<Rightarrow> compile_sigs D ss (acc\<lparr>regex_pats := regex_pats acc @ [re],
                       regex_meta := regex_meta acc @ [sig_meta_of s]\<rparr>)
        | None \<Rightarrow> Inl (SigCompile (sig_id s @ '': needs a literal or regex''))))"

definition db_compile ::
  "('h, 'z) http_deps_scheme \<Rightarrow> ('a, 'r, 'y) match_deps_scheme \<Rightarrow> signature list \<Rightarrow>
     signature_error + ('a, 'r) signature_db" where
  "db_compile D M sigs =
     (case compile_sigs D sigs \<lparr>literal_pats = [], literal_meta = [], regex_pats = [], regex_meta = []\<rparr> of
        Inl e \<Rightarrow> Inl e
      | Inr acc \<Rightarrow>
          if literal_pats acc = [] \<and> regex_pats acc = [] then Inl SigEmpty
          else case aho_new M (literal_pats acc) of
            Inl e \<Rightarrow> Inl (SigCompile (''aho-corasick: '' @ e))
          | Inr lits \<Rightarrow> (case rset_new M (regex_pats acc) of
              Inl e \<Rightarrow> Inl (SigCompile (''regex: '' @ e))
            | Inr res \<Rightarrow> Inr \<lparr>db_literals = lits, db_literal_meta = literal_meta acc,
                db_regexes = res, db_regex_meta = regex_meta acc, db_count = length sigs\<rparr>))"

section \<open>The built-in signatures\<close>

definition sig_lit :: "string \<Rightarrow> string \<Rightarrow> string \<Rightarrow> signature" where
  "sig_lit i l r = \<lparr>sig_id = i, sig_literal = Some l, sig_regex = None, sig_status = 403, sig_reason = r\<rparr>"

definition sig_re :: "string \<Rightarrow> string \<Rightarrow> string \<Rightarrow> signature" where
  "sig_re i x r = \<lparr>sig_id = i, sig_literal = None, sig_regex = Some x, sig_status = 403, sig_reason = r\<rparr>"

abbreviation bsl :: char where "bsl \<equiv> CHR 0x5C"

definition builtin_signatures :: "signature list" where
  "builtin_signatures =
    [sig_lit ''sqli.union_select'' ''union select'' ''SQL injection: UNION SELECT'',
     sig_lit ''sqli.sleep'' ''sleep('' ''SQL injection: time-based (sleep)'',
     sig_lit ''sqli.benchmark'' ''benchmark('' ''SQL injection: time-based (benchmark)'',
     sig_lit ''sqli.information_schema'' ''information_schema'' ''SQL injection: schema probe'',
     sig_re ''sqli.or_boolean''
       (''(?:'' @ [CHR 0x27] @ ''|'' @ [CHR 0x22] @ ''| )or +[0-9]+ *= *[0-9]+'')
       ''SQL injection: boolean tautology'',
     sig_re ''sqli.union_select_ws'' ''union +select'' ''SQL injection: UNION SELECT (spaced)'',
     sig_re ''sqli.comment_tail'' (''(?:--|#|/'' @ [bsl] @ ''*) *$'') ''SQL injection: trailing comment'',
     sig_lit ''xss.script_open'' ''<script'' ''XSS: <script> tag'',
     sig_lit ''xss.js_proto'' ''javascript:'' ''XSS: javascript: URI'',
     sig_lit ''xss.svg_onload'' ''<svg'' ''XSS: <svg> vector'',
     sig_lit ''xss.img_onerror'' ''onerror='' ''XSS: onerror handler'',
     sig_re ''xss.event_handler'' '' on(?:load|click|mouseover|focus|error) *=''
       ''XSS: inline event handler'',
     sig_lit ''lfi.dotdot'' ''../'' ''Path traversal: ../'',
     sig_lit ''lfi.dotdot_back'' (''..'' @ [bsl]) (''Path traversal: ..'' @ [bsl]),
     sig_lit ''lfi.etc_passwd'' ''/etc/passwd'' ''LFI: /etc/passwd'',
     sig_lit ''lfi.win_ini'' ''boot.ini'' ''LFI: boot.ini'',
     sig_re ''rce.shell_meta''
       (''(?:;|'' @ [bsl] @ ''|'' @ [bsl] @ ''||&&|'' @ [CHR 0x60] @ ''|'' @ [bsl] @ ''$'' @ [bsl] @
        ''() *(?:cat|ls|id|whoami|curl|wget|nc|bash|sh)'')
       ''Command injection: shell metacharacter + command'']"

definition db_builtin ::
  "('h, 'z) http_deps_scheme \<Rightarrow> ('a, 'r, 'y) match_deps_scheme \<Rightarrow> ('a, 'r) signature_db option" where
  "db_builtin D M = (case db_compile D M builtin_signatures of Inl _ \<Rightarrow> None | Inr db \<Rightarrow> Some db)"

text \<open>\<open>read\<close> is \<open>fs::read_to_string\<close>, \<open>from_toml\<close> the decoder of a \<open>[[signature]]\<close> file.\<close>

definition db_load ::
  "('h, 'z) http_deps_scheme \<Rightarrow> ('a, 'r, 'y) match_deps_scheme \<Rightarrow> (string \<Rightarrow> string + string) \<Rightarrow>
     (string \<Rightarrow> string + signature list) \<Rightarrow> string \<Rightarrow> (signature_error + ('a, 'r) signature_db) option" where
  "db_load D M read from_toml path =
     (if trim path = [] then map_option Inr (db_builtin D M)
      else case read path of
        Inl e \<Rightarrow> Some (Inl (SigRead (path @ '': '' @ e)))
      | Inr txt \<Rightarrow> (case from_toml txt of
          Inl e \<Rightarrow> Some (Inl (SigParse e))
        | Inr sigs \<Rightarrow> Some (db_compile D M sigs)))"

section \<open>Scanning\<close>

definition hit_of :: "sig_meta \<Rightarrow> sig_hit" where
  "hit_of m = \<lparr>hit_rule_id = sm_id m, hit_status = sm_status m, hit_reason = sm_reason m\<rparr>"

definition hit_at :: "sig_meta list \<Rightarrow> nat \<Rightarrow> sig_hit option option" where
  "hit_at ms i = (if i < length ms then Some (Some (hit_of (ms ! i))) else None)"

definition db_scan ::
  "('a, 'r, 'y) match_deps_scheme \<Rightarrow> ('a, 'r) signature_db \<Rightarrow> string \<Rightarrow> sig_hit option option" where
  "db_scan M db hay = (case aho_find M (db_literals db) hay of
     Some i \<Rightarrow> hit_at (db_literal_meta db) i
   | None \<Rightarrow> (case rset_matches M (db_regexes db) hay of
       i # _ \<Rightarrow> hit_at (db_regex_meta db) i
     | [] \<Rightarrow> Some None))"

section \<open>The stage\<close>

definition haystack :: "'h request_ctx \<Rightarrow> string" where
  "haystack ctx =
     (let h0 = (case nc_path (rq_normalized ctx) of
            Some p \<Rightarrow> p
          | None \<Rightarrow> normalize_into (rq_path ctx) False []);
          h1 = (case nc_query (rq_normalized ctx) of
            Some q \<Rightarrow> h0 @ ''?'' @ q
          | None \<Rightarrow> (case rq_query ctx of
              Some q \<Rightarrow> normalize_into q True (h0 @ ''?'')
            | None \<Rightarrow> h0))
      in case rq_body ctx of
           Buffered b \<Rightarrow> normalize_into b True (h1 @ [nl])
         | _ \<Rightarrow> h1)"

definition signature_inspect ::
  "('a, 'r, 'y) match_deps_scheme \<Rightarrow> ('h, ('a, 'r) signature_db) stage" where
  "signature_inspect M ctx db = (case db_scan M db (haystack ctx) of
     None \<Rightarrow> Panic (ctx, db)
   | Some (Some h) \<Rightarrow> Ret (Break (Block (hit_rule_id h) (hit_status h) (hit_reason h))) (ctx, db)
   | Some None \<Rightarrow> Ret Continue (ctx, db))"

lemma signature_inspect_frame: "ctx_frame c (fst (stage_state (signature_inspect M c w)))"
  by (simp add: signature_inspect_def split: option.split)

interpretation signatures: waf_stage "signature_inspect M"
  by unfold_locales (rule signature_inspect_frame)

section \<open>Compilation keeps patterns and metadata aligned\<close>

abbreviation literal_sigs :: "signature list \<Rightarrow> signature list" where
  "literal_sigs \<equiv> filter (\<lambda>s. sig_literal s \<noteq> None)"

abbreviation regex_sigs :: "signature list \<Rightarrow> signature list" where
  "regex_sigs \<equiv> filter (\<lambda>s. sig_literal s = None)"

lemma compile_sigs_Inr:
  "compile_sigs D sigs acc = Inr acc' \<Longrightarrow>
     literal_pats acc' = literal_pats acc @ map (to_ascii_lowercase \<circ> the \<circ> sig_literal) (literal_sigs sigs) \<and>
     literal_meta acc' = literal_meta acc @ map sig_meta_of (literal_sigs sigs) \<and>
     regex_pats acc' = regex_pats acc @ map (the \<circ> sig_regex) (regex_sigs sigs) \<and>
     regex_meta acc' = regex_meta acc @ map sig_meta_of (regex_sigs sigs) \<and>
     (\<forall>s\<in>set sigs. sig_literal s = None \<longrightarrow> sig_regex s \<noteq> None)"
  by (induction D sigs acc rule: compile_sigs.induct) (auto split: if_splits option.splits)

lemma db_compile_Inr:
  assumes "db_compile D M sigs = Inr db"
  shows "aho_new M (map (to_ascii_lowercase \<circ> the \<circ> sig_literal) (literal_sigs sigs)) = Inr (db_literals db)"
    and "rset_new M (map (the \<circ> sig_regex) (regex_sigs sigs)) = Inr (db_regexes db)"
    and "db_literal_meta db = map sig_meta_of (literal_sigs sigs)"
    and "db_regex_meta db = map sig_meta_of (regex_sigs sigs)"
    and "\<forall>s\<in>set sigs. sig_literal s = None \<longrightarrow> sig_regex s \<noteq> None"
  using assms
  by (auto simp: db_compile_def dest!: compile_sigs_Inr split: sum.splits if_splits)

definition sig_matches :: "('a, 'r, 'y) match_deps_scheme \<Rightarrow> signature \<Rightarrow> string \<Rightarrow> bool" where
  "sig_matches M s hay = (case sig_literal s of
     Some l \<Rightarrow> contains_str hay (to_ascii_lowercase l)
   | None \<Rightarrow> (case sig_regex s of Some x \<Rightarrow> bytes_match M x hay | None \<Rightarrow> False))"

lemma literal_find:
  assumes "aho_laws M" "db_compile D M sigs = Inr db"
  shows "aho_find M (db_literals db) hay = Some i \<Longrightarrow>
      i < length (literal_sigs sigs) \<and> sig_matches M (literal_sigs sigs ! i) hay"
    and "aho_find M (db_literals db) hay = None \<Longrightarrow> s \<in> set (literal_sigs sigs) \<Longrightarrow>
      \<not> sig_matches M s hay"
proof -
  let ?ps = "map (to_ascii_lowercase \<circ> the \<circ> sig_literal) (literal_sigs sigs)"
  have lit: "sig_matches M s hay = contains_str hay (to_ascii_lowercase (the (sig_literal s)))"
    if "s \<in> set (literal_sigs sigs)" for s
    using that by (auto simp: sig_matches_def)
  note laws = assms(1) [unfolded aho_laws_def, rule_format, OF db_compile_Inr(1) [OF assms(2)]]
  { assume "aho_find M (db_literals db) hay = Some i"
    with laws [of hay] have "i < length (literal_sigs sigs)" "contains_str hay (?ps ! i)"
      by (metis length_map)+
    then show "i < length (literal_sigs sigs) \<and> sig_matches M (literal_sigs sigs ! i) hay"
      using lit [OF nth_mem] by simp }
  { assume "aho_find M (db_literals db) hay = None" "s \<in> set (literal_sigs sigs)"
    with laws [of hay] show "\<not> sig_matches M s hay" using lit by auto }
qed

lemma regex_find:
  assumes "rset_laws M" "db_compile D M sigs = Inr db"
  shows "i \<in> set (rset_matches M (db_regexes db) hay) \<longleftrightarrow>
    i < length (regex_sigs sigs) \<and> sig_matches M (regex_sigs sigs ! i) hay"
proof -
  have "sig_matches M s hay = bytes_match M (the (sig_regex s)) hay" if "s \<in> set (regex_sigs sigs)" for s
    using that db_compile_Inr(5) [OF assms(2)] by (auto simp: sig_matches_def)
  then have "sig_matches M (regex_sigs sigs ! i) hay = bytes_match M (the (sig_regex (regex_sigs sigs ! i))) hay"
    if "i < length (regex_sigs sigs)"
    using nth_mem [OF that] by blast
  then show ?thesis
    using assms(1) [unfolded rset_laws_def, rule_format, OF db_compile_Inr(2) [OF assms(2)], of hay]
    by auto
qed

lemma scan_cases:
  assumes "aho_laws M" "rset_laws M" "db_compile D M sigs = Inr db"
  shows "\<exists>r. db_scan M db hay = Some r \<and>
    (r = None \<longleftrightarrow> (\<forall>s\<in>set sigs. \<not> sig_matches M s hay)) \<and>
    (\<forall>h. r = Some h \<longrightarrow> (\<exists>s\<in>set sigs. sig_matches M s hay \<and> h = hit_of (sig_meta_of s)))"
proof (cases "aho_find M (db_literals db) hay")
  case (Some i)
  note i = literal_find(1) [OF assms(1,3) Some]
  then have "literal_sigs sigs ! i \<in> set sigs" using nth_mem by fastforce
  with i Some db_compile_Inr(3) [OF assms(3)] show ?thesis
    by (auto simp: db_scan_def hit_at_def)
next
  case None
  note lits = literal_find(2) [OF assms(1,3) None]
  show ?thesis
  proof (cases "rset_matches M (db_regexes db) hay")
    case Nil
    have "\<not> sig_matches M s hay" if "s \<in> set sigs" for s
    proof (cases "sig_literal s")
      case None
      then obtain i where "i < length (regex_sigs sigs)" "regex_sigs sigs ! i = s"
        using \<open>s \<in> set sigs\<close> in_set_conv_nth [of s "regex_sigs sigs"] by auto
      then show ?thesis using regex_find [OF assms(2,3), of i hay] Nil by auto
    qed (use that lits in auto)
    with None Nil show ?thesis by (simp add: db_scan_def)
  next
    case (Cons i js)
    then have i: "i < length (regex_sigs sigs)" "sig_matches M (regex_sigs sigs ! i) hay"
      using regex_find [OF assms(2,3), of i hay] by simp_all
    then have "regex_sigs sigs ! i \<in> set sigs" using nth_mem by fastforce
    with i None Cons db_compile_Inr(4) [OF assms(3)] show ?thesis
      by (auto simp: db_scan_def hit_at_def)
  qed
qed

section \<open>The haystack\<close>

lemma normalize_into_append: "normalize_into i p out = out @ normalize_into i p []"
  unfolding normalize_into_def by (rule decode_fold_into_append)

lemma haystack_parts:
  assumes "nc_path (rq_normalized ctx) \<in> {None, Some (normalize_into (rq_path ctx) False [])}"
    and "nc_query (rq_normalized ctx) \<in> {None, map_option (\<lambda>q. normalize_into q True []) (rq_query ctx)}"
  shows "haystack ctx = normalize_into (rq_path ctx) False [] @
    (case rq_query ctx of None \<Rightarrow> [] | Some q \<Rightarrow> ''?'' @ normalize_into q True []) @
    (case rq_body ctx of Buffered b \<Rightarrow> nl # normalize_into b True [] | _ \<Rightarrow> [])"
  using assms
  by (auto simp: haystack_def Let_def normalize_into_append [of _ _ "_ @ _"]
      split: option.splits body_state.splits)

section \<open>Properties\<close>

text \<open>C20: the scan is exact. On a compiled database a scan does not panic; it finds nothing exactly when
  no signature matches (a literal signature where its lower-cased literal occurs, a pattern signature
  where its pattern matches), and what it reports is the identifier, status and reason of a
  signature that matches.\<close>

theorem scan_exact:
  assumes "aho_laws M" "rset_laws M" "db_compile D M sigs = Inr db"
  shows "\<exists>r. db_scan M db hay = Some r \<and>
    (r = None \<longleftrightarrow> (\<forall>s\<in>set sigs. \<not> sig_matches M s hay)) \<and>
    (\<forall>h. r = Some h \<longrightarrow> (\<exists>s\<in>set sigs. sig_matches M s hay \<and> hit_rule_id h = sig_id s \<and>
       hit_status h = sig_status s \<and>
       hit_reason h = (if sig_reason s = [] then sig_id s else sig_reason s)))"
proof -
  obtain r where r: "db_scan M db hay = Some r"
    "r = None \<longleftrightarrow> (\<forall>s\<in>set sigs. \<not> sig_matches M s hay)"
    "\<forall>h. r = Some h \<longrightarrow> (\<exists>s\<in>set sigs. sig_matches M s hay \<and> h = hit_of (sig_meta_of s))"
    using scan_cases [OF assms] by blast
  have "\<exists>s\<in>set sigs. sig_matches M s hay \<and> hit_rule_id h = sig_id s \<and> hit_status h = sig_status s \<and>
      hit_reason h = (if sig_reason s = [] then sig_id s else sig_reason s)" if "r = Some h" for h
    using r(3) that by (auto simp: hit_of_def sig_meta_of_def)
  with r show ?thesis by blast
qed

text \<open>Matchers for the evaluation of concrete cases: the automaton is the pattern list, a pattern of
  the set matches where it occurs literally.\<close>

definition find_pat :: "string list \<Rightarrow> string \<Rightarrow> nat option" where
  "find_pat ps hay = find (\<lambda>i. contains_str hay (ps ! i)) [0..<length ps]"

definition minst :: "(string list, string list) match_deps" where
  "minst = \<lparr>aho_new = Inr, aho_find = find_pat, rset_new = Inr,
     rset_matches = (\<lambda>ps hay. filter (\<lambda>i. contains_str hay (ps ! i)) [0..<length ps]),
     bytes_match = (\<lambda>p hay. contains_str hay p)\<rparr>"

lemma minst_laws: "aho_laws minst" "rset_laws minst"
  by (auto simp: aho_laws_def rset_laws_def minst_def find_pat_def find_None_iff find_Some_iff in_set_conv_nth)

lemma builtin_compiles: "\<exists>db. db_compile inst minst builtin_signatures = Inr db"
proof -
  have "\<exists>acc. compile_sigs inst builtin_signatures a = Inr acc \<and> literal_pats acc \<noteq> []" for a
    by (simp add: builtin_signatures_def sig_lit_def sig_re_def)
  then show ?thesis
    unfolding db_compile_def by (simp add: minst_def split: sum.split) (metis sum.distinct(1) sum.sel(2))
qed

theorem scan_exact_witness:
  "\<exists>db r. db_compile inst minst builtin_signatures = Inr db \<and>
     db_scan minst db ''/?q=1 union select 2'' = Some (Some r)"
proof -
  obtain db where db: "db_compile inst minst builtin_signatures = Inr db"
    using builtin_compiles by blast
  have "sig_matches minst (hd builtin_signatures) ''/?q=1 union select 2''"
    by (simp add: sig_matches_def builtin_signatures_def sig_lit_def) code_simp
  moreover have "hd builtin_signatures \<in> set builtin_signatures"
    by (simp add: builtin_signatures_def)
  ultimately show ?thesis
    using scan_exact [OF minst_laws db, of "''/?q=1 union select 2''"] db by (metis option.exhaust)
qed

lemma normalize_inspect_ret:
  "normalize_inspect ctx w = Ret Continue
     (ctx\<lparr>rq_normalized := (rq_normalized ctx)\<lparr>nc_path := Some (normalize_into (rq_path ctx) False []),
        nc_query := map_option (\<lambda>q. normalize_into q True []) (rq_query ctx)\<rparr>\<rparr>, w)"
  by (simp add: normalize_inspect_def Let_def split: option.split)

lemma haystack_normalized:
  "haystack (fst (stage_state (normalize_inspect ctx w))) =
   haystack (ctx\<lparr>rq_normalized := normalized_default\<rparr>)"
proof -
  have "haystack (fst (stage_state (normalize_inspect ctx w))) =
      normalize_into (rq_path ctx) False [] @
      (case rq_query ctx of None \<Rightarrow> [] | Some q \<Rightarrow> ''?'' @ normalize_into q True []) @
      (case rq_body ctx of Buffered b \<Rightarrow> nl # normalize_into b True [] | _ \<Rightarrow> [])"
    by (subst haystack_parts) (simp_all add: normalize_inspect_ret)
  also have "\<dots> = haystack (ctx\<lparr>rq_normalized := normalized_default\<rparr>)"
    by (subst haystack_parts) (simp_all add: normalized_default_def)
  finally show ?thesis .
qed

lemma contains_str_append:
  "contains_str s n \<Longrightarrow> contains_str (a @ s @ b) n"
  by (metis append.assoc contains_str_iff)

lemma normalize_pct_variant:
  "pct_variant p e s \<Longrightarrow> list_all is_ascii s \<Longrightarrow> normalize_into e p [] = to_ascii_lowercase s"
  by (simp add: normalize_into_def decode_pct_variant concat_push_byte)

lemma variant_in_haystack:
  assumes "pct_variant False (rq_path ctx) txt \<or>
      (\<exists>q. rq_query ctx = Some q \<and> pct_variant True q txt) \<or>
      (\<exists>b. rq_body ctx = Buffered b \<and> pct_variant True b txt)"
    and "list_all is_ascii txt" "contains_str (to_ascii_lowercase txt) n"
  shows "contains_str (haystack (fst (stage_state (normalize_inspect ctx w)))) n"
proof -
  have hay: "haystack (fst (stage_state (normalize_inspect ctx w))) =
      normalize_into (rq_path ctx) False [] @
      (case rq_query ctx of None \<Rightarrow> [] | Some q \<Rightarrow> ''?'' @ normalize_into q True []) @
      (case rq_body ctx of Buffered b \<Rightarrow> nl # normalize_into b True [] | _ \<Rightarrow> [])"
    by (subst haystack_parts) (simp_all add: normalize_inspect_ret)
  have part: "contains_str (a @ normalize_into e p [] @ b) n" if "pct_variant p e txt" for a b e p
    using that assms(2,3) by (simp add: normalize_pct_variant contains_str_append)
  from assms(1) show ?thesis
  proof (elim disjE exE conjE)
    assume "pct_variant False (rq_path ctx) txt"
    from part [OF this, of "[]"] show ?thesis by (simp add: hay)
  next
    fix q assume "rq_query ctx = Some q" "pct_variant True q txt"
    with part [OF this(2), of "normalize_into (rq_path ctx) False [] @ ''?''"] show ?thesis
      by (simp add: hay)
  next
    fix b assume "rq_body ctx = Buffered b" "pct_variant True b txt"
    with part [OF this(2), of "normalize_into (rq_path ctx) False [] @
        (case rq_query ctx of None \<Rightarrow> [] | Some q \<Rightarrow> ''?'' @ normalize_into q True []) @ [nl]" "[]"]
    show ?thesis by (simp add: hay)
  qed
qed



end
