(* ===== verification/Ratelimit.thy ===== *)
theory Ratelimit
  imports Config Instances
begin

text \<open>
  \<open>crates/budu-ratelimit\<close>: the per-address token-bucket limiter, its pipeline stage, and the store
  of named per-address counters. The bucket table (\<open>governor\<close> buckets in a \<open>moka\<close> cache) and the
  counter cache are parameters. Shown: the \<open>Retry-After\<close> value is the wait rounded up and at least
  one second; a counter key determines the name and the printed address; counters add up,
  saturate and do not interfere.
\<close>

section \<open>The limiter\<close>

record 'b ip_rate_limiter =
  buckets :: 'b
  quota_rps :: u32
  quota_burst :: u32

definition limiter_new ::
  "('h, 'n, 'b, 'c, 'z) limit_deps_scheme \<Rightarrow> u32 \<Rightarrow> u32 \<Rightarrow> u64 \<Rightarrow> 'b ip_rate_limiter" where
  "limiter_new D rps burst ttl_secs =
     (let rps' = (if rps = 0 then 1 else rps);
          burst' = (if burst = 0 then rps' else burst)
      in \<lparr>buckets = bk_new D (max ttl_secs 1) 1000000, quota_rps = rps', quota_burst = burst'\<rparr>)"

text \<open>\<open>check\<close> returns \<open>None\<close> for \<open>Ok(())\<close> and \<open>Some retry\<close> for \<open>Err(retry)\<close>.\<close>

definition limiter_check ::
  "('h, 'n, 'b, 'c, 'z) limit_deps_scheme \<Rightarrow> u64 \<Rightarrow> 'b ip_rate_limiter \<Rightarrow> ip_addr \<Rightarrow>
     u32 option \<times> 'b ip_rate_limiter" where
  "limiter_check D now l a =
     (let (ans, b) = bk_check D (buckets l) (quota_rps l) (quota_burst l) a now;
          l' = l\<lparr>buckets := b\<rparr>
      in case ans of
           None \<Rightarrow> (None, l')
         | Some (secs, nanos) \<Rightarrow>
             (Some (ucast (max (secs + (if 0 < nanos then 1 else 0)) 1)), l'))"

definition limiter_tracked :: "('h, 'n, 'b, 'c, 'z) limit_deps_scheme \<Rightarrow> 'b ip_rate_limiter \<Rightarrow> u64" where
  "limiter_tracked D l = bk_count D (buckets l)"

definition limiter_maintenance ::
  "('h, 'n, 'b, 'c, 'z) limit_deps_scheme \<Rightarrow> u64 \<Rightarrow> 'b ip_rate_limiter \<Rightarrow> 'b ip_rate_limiter" where
  "limiter_maintenance D now l = l\<lparr>buckets := bk_maint D (buckets l) now\<rparr>"

section \<open>The stage\<close>

definition ratelimit_from_config ::
  "('h, 'n, 'b, 'c, 'z) limit_deps_scheme \<Rightarrow> ratelimit_config \<Rightarrow> 'b ip_rate_limiter" where
  "ratelimit_from_config D cfg = limiter_new D (requests_per_sec cfg) (rl_burst cfg) (rl_ttl_secs cfg)"

definition ratelimit_inspect ::
  "('h, 'n, 'b, 'c, 'z) limit_deps_scheme \<Rightarrow> u64 \<Rightarrow> ('h, 'b ip_rate_limiter) stage" where
  "ratelimit_inspect D now ctx l =
     (case limiter_check D now l (ip (rq_client ctx)) of
        (None, l') \<Rightarrow> Ret Continue (ctx, l')
      | (Some r, l') \<Rightarrow> Ret (Break (RateLimited r)) (ctx, l'))"

section \<open>Counters\<close>

definition expire_after_create :: "counter \<Rightarrow> u64 option" where
  "expire_after_create v = Some (ttl v)"

definition expire_after_update :: "counter \<Rightarrow> u64 option" where
  "expire_after_update v = Some (ttl v)"

definition counter_store_new :: "('h, 'n, 'b, 'c, 'z) limit_deps_scheme \<Rightarrow> 'c" where
  "counter_store_new D = cc_new D 1000000"

definition key_sep :: char where
  "key_sep = char_of (1::nat)"

definition counter_key :: "string \<Rightarrow> ip_addr \<Rightarrow> string" where
  "counter_key name a = name @ [key_sep] @ show_ip a"

definition counter_incr ::
  "('h, 'n, 'b, 'c, 'z) limit_deps_scheme \<Rightarrow> u64 \<Rightarrow> 'c \<Rightarrow> string \<Rightarrow> ip_addr \<Rightarrow> u64 \<Rightarrow> u64 \<Rightarrow> u64 \<times> 'c" where
  "counter_incr D now c name a amount window_secs =
     (let key = counter_key name a;
          current = (case cc_get D c key now of Some v \<Rightarrow> count v | None \<Rightarrow> 0);
          n = saturating_add current amount
      in (n, cc_insert D c key \<lparr>count = n, ttl = max window_secs 1\<rparr> now))"

definition counter_get ::
  "('h, 'n, 'b, 'c, 'z) limit_deps_scheme \<Rightarrow> u64 \<Rightarrow> 'c \<Rightarrow> string \<Rightarrow> ip_addr \<Rightarrow> u64" where
  "counter_get D now c name a =
     (case cc_get D c (counter_key name a) now of Some v \<Rightarrow> count v | None \<Rightarrow> 0)"

definition counter_tracked :: "('h, 'n, 'b, 'c, 'z) limit_deps_scheme \<Rightarrow> 'c \<Rightarrow> u64" where
  "counter_tracked D c = cc_count D c"

definition counter_maintenance :: "('h, 'n, 'b, 'c, 'z) limit_deps_scheme \<Rightarrow> u64 \<Rightarrow> 'c \<Rightarrow> 'c" where
  "counter_maintenance D now c = cc_maint D c now"

section \<open>Lemmas\<close>

lemma ratelimit_inspect_frame: "ctx_frame c (fst (stage_state (ratelimit_inspect D now c w)))"
  by (simp add: ratelimit_inspect_def split: prod.split option.split)

interpretation ratelimit: waf_stage "ratelimit_inspect D now"
  by unfold_locales (rule ratelimit_inspect_frame)

text \<open>No address prints a control character, so the last \<open>U+0001\<close> of a key ends the name.\<close>

definition printable :: "char \<Rightarrow> bool" where
  "printable c \<longleftrightarrow> 32 \<le> bv c"

lemma list_all_map_all: "(\<And>x. list_all P (f x)) \<Longrightarrow> list_all (list_all P) (map f xs)"
  by (induction xs) auto

lemma list_all_join:
  "list_all P sep \<Longrightarrow> list_all (list_all P) ps \<Longrightarrow> list_all P (join sep ps)"
  by (induction sep ps rule: join.induct) auto

lemma printable_show_nat: "list_all printable (show_nat n)"
proof -
  have "printable c" if "c \<in> set (show_nat n)" for c
    using show_nat_digits [OF that]
    by (auto simp: digit_val_def printable_def split: if_splits)
  then show ?thesis by (simp add: list_all_iff)
qed

lemma printable_show_hex: "list_all printable (show_hex n)"
proof (induction n rule: show_hex.induct)
  case (1 n)
  have "printable (hex_digit d)" if "d < 16" for d
    using that by (simp add: hex_digit_def printable_def bv_char_of)
  with 1 show ?case by (subst show_hex.simps) simp
qed

lemma printable_show_v4: "list_all printable (show_v4 os)"
  unfolding show_v4_def
  by (intro list_all_join list_all_map_all printable_show_nat) (simp add: printable_def bv_def)

lemma printable_hex_groups: "list_all printable (join '':'' (map show_hex gs))"
  by (intro list_all_join list_all_map_all printable_show_hex) (simp add: printable_def bv_def)

lemma printable_show_ip: "list_all printable (show_ip a)"
  by (cases a)
     (auto simp: show_ip_def show_v6_def printable_show_v4 printable_hex_groups Let_def
       printable_def bv_def split: prod.split)

lemma sep_not_printed: "key_sep \<notin> set (show_ip a)"
proof
  assume "key_sep \<in> set (show_ip a)"
  then have "printable key_sep"
    using printable_show_ip [of a] by (simp add: list_all_iff)
  then show False by (simp add: printable_def key_sep_def bv_char_of)
qed

lemma append_sep_inject:
  "x \<notin> set b \<Longrightarrow> x \<notin> set b' \<Longrightarrow> a @ x # b = a' @ x # b' \<longleftrightarrow> a = a' \<and> b = b'"
  by (auto simp: append_eq_append_conv2 Cons_eq_append_conv append_eq_Cons_conv)

lemma counter_key_eq:
  "counter_key n a = counter_key n' a' \<longleftrightarrow> n = n' \<and> show_ip a = show_ip a'"
  by (simp add: counter_key_def append_sep_inject sep_not_printed)

section \<open>Properties\<close>

text \<open>C40: the seconds suggested to a throttled client are the bucket's wait rounded up to whole seconds
  and at least one, for every wait below \<open>2^32 - 1\<close> seconds (the answer is cut to 32 bits).\<close>

theorem retry_after_rounds_up:
  assumes "bk_check D (buckets l) (quota_rps l) (quota_burst l) a now = (Some (secs, nanos), b)"
    and "unat secs < 2 ^ 32 - 1"
  shows "\<exists>r. limiter_check D now l a = (Some r, l\<lparr>buckets := b\<rparr>) \<and>
    unat r = max 1 (unat secs + (if nanos = 0 then 0 else 1))"
proof -
  let ?w = "max (secs + (if 0 < nanos then 1 else 0)) 1 :: u64"
  have s: "unat (secs + 1) = unat secs + 1"
    using assms(2) by (simp add: unat_word_ariths)
  have "unat ?w = max 1 (unat secs + (if nanos = 0 then 0 else 1))"
    using s by (simp add: unat_max word_neq_0_conv [symmetric] max.commute)
  moreover from this have "unat ?w < 2 ^ 32"
    using assms(2) by (auto simp: max_def split: if_splits)
  then have "unat (ucast ?w :: u32) = unat ?w"
    by (simp add: unsigned_ucast_eq take_bit_nat_eq_self)
  ultimately show ?thesis
    using assms(1) by (simp add: limiter_check_def)
qed

theorem retry_after_rounds_up_witness:
  "limiter_check inst 0 \<lparr>buckets = [(V4 7, 3)], quota_rps = 1, quota_burst = 3\<rparr> (V4 7) =
     (Some 1, \<lparr>buckets = [(V4 7, 3)], quota_rps = 1, quota_burst = 3\<rparr>)"
proof -
  let ?l = "\<lparr>buckets = [(V4 7, 3)], quota_rps = 1, quota_burst = 3\<rparr> :: bucket_table ip_rate_limiter"
  have "bk_check inst (buckets ?l) (quota_rps ?l) (quota_burst ?l) (V4 7) 0 =
      (Some (0, 500000000), [(V4 7, 3)])"
    by (simp add: b_check_def)
  from retry_after_rounds_up [OF this] obtain r :: u32 where
    "limiter_check inst 0 ?l (V4 7) = (Some r, ?l)" "unat r = 1"
    by auto
  moreover from this have "r = 1" by (metis unat_1 word_unat_eq_iff)
  ultimately show ?thesis by simp
qed

text \<open>C30: counting. An increment answers the saturating sum of the live value and the amount; the store
  gives that value back for the whole window, and every counter with another name or another printed
  address keeps its value.\<close>

theorem counter_incr_counts:
  assumes "counter_laws D" and "counter_incr D now c name a amount window = (n, c')"
    and "now \<le> t" and "t - now < max window 1"
  shows "unat n = min (unat (counter_get D now c name a) + unat amount) (2 ^ 64 - 1) \<and>
    counter_get D t c' name a = n \<and>
    (\<forall>name' a'. name' \<noteq> name \<or> show_ip a' \<noteq> show_ip a \<longrightarrow>
       counter_get D t c' name' a' = counter_get D t c name' a')"
proof -
  have n: "n = saturating_add (counter_get D now c name a) amount"
    and c': "c' = cc_insert D c (counter_key name a) \<lparr>count = n, ttl = max window 1\<rparr> now"
    using assms(2) by (auto simp: counter_incr_def counter_get_def Let_def)
  have "counter_get D t c' name a = n"
    using assms(1,3,4) by (simp add: counter_laws_def counter_get_def c')
  moreover have "counter_get D t c' name' a' = counter_get D t c name' a'"
    if "name' \<noteq> name \<or> show_ip a' \<noteq> show_ip a" for name' a'
  proof -
    have "counter_key name' a' \<noteq> counter_key name a"
      using that by (auto simp: counter_key_eq)
    then show ?thesis
      using assms(1) by (simp add: counter_laws_def counter_get_def c')
  qed
  ultimately show ?thesis by (simp add: n unat_saturating_add)
qed

theorem counter_incr_counts_witness:
  "counter_get inst 100 (snd (counter_incr inst 5 (\<lambda>_. None) ''login'' (V4 7) 2 300)) ''login'' (V4 7) = 2"
proof -
  let ?r = "counter_incr inst 5 (\<lambda>_. None) ''login'' (V4 7) 2 300"
  have r: "?r = (fst ?r, snd ?r)" by simp
  have z: "counter_get inst 5 (\<lambda>_. None) ''login'' (V4 7) = 0"
    by (simp add: counter_get_def c_get_def)
  have w: "(5 :: u64) \<le> 100" "(100 :: u64) - 5 < max 300 1"
    by (simp_all add: word_less_nat_alt unat_max)
  have "unat (fst ?r) = unat (2 :: u64)" "counter_get inst 100 (snd ?r) ''login'' (V4 7) = fst ?r"
    using counter_incr_counts [OF inst_counter_laws r w] z by simp_all
  then show ?thesis by (simp add: word_unat_eq_iff)
qed

end
