(* ===== verification/Rule_Compile.thy ===== *)
theory Rule_Compile
  imports Rule_Time Ratelimit Reputation
begin

text \<open>
  The rule model of \<open>crates/budu-rules/src/ruleset.rs\<close> and its compilation: rule definitions as the
  TOML file gives them, the compiled conditions and actions, \<open>compile_cond\<close>, \<open>compile_with_tz\<close>,
  \<open>apply_scoring\<close> and \<open>load\<close>. The \<open>regex\<close> and \<open>libinjectionrs\<close> crates and the JSON decoder are the
  parameter record \<open>rule_deps\<close>, whose flag says whether the feature \<open>libinjection\<close> is built. An error
  message is a constructor with the values it quotes. Shown: what a compiled rule set may contain,
  phase by phase.
\<close>

section \<open>Definitions of rules\<close>

datatype json =
    JNull
  | JBool bool
  | JNum string
  | JStr string
  | JArr "json list"
  | JObj "(string \<times> json) list"

record 're rule_deps =
  re_new :: "string \<Rightarrow> string + 're"
  re_is_match :: "'re \<Rightarrow> string \<Rightarrow> bool"
  libinjection :: bool
  inj_sqli :: "bytes \<Rightarrow> bool"
  inj_xss :: "bytes \<Rightarrow> bool"
  from_json :: "bytes \<Rightarrow> json option"

datatype phase_kind = PhRequest | PhResponse

datatype action_kind = AkBlock | AkAllow | AkLog | AkRateLimit | AkScore | AkIncr

record cond_def =
  cd_field :: string
  cd_name :: string
  cd_op :: string
  cd_value :: string
  cd_values :: "string list"
  cd_negate :: bool
  cd_transform :: "string list"
  cd_tz :: string

record rule_def =
  rd_id :: string
  rd_phase :: phase_kind
  rd_action :: action_kind
  rd_status :: u16
  rd_msg :: string
  rd_rps :: u32
  rd_burst :: u32
  rd_ttl_secs :: u64
  rd_score :: u32
  rd_counter :: string
  rd_incr :: u64
  rd_when :: "cond_def list"

definition default_incr :: u64 where
  "default_incr = 1"

definition default_rule_status :: u16 where
  "default_rule_status = 403"

definition default_rl_ttl :: u64 where
  "default_rl_ttl = 300"

section \<open>The compiled form\<close>

datatype field =
    FMethod | FPath | FQuery | FUri | FHeader string | FBody | FIp | FCountry
  | FStatus | FRespHeader string | FRespBody | FCounter string
  | FArg string | FArgNames | FArgsCount | FCookie string | FCookieNames
  | FArgs | FHeaders | FHeaderNames | FCookies | FTime | FDay

datatype ('re, 'n) oper =
    OEq string | ONe string | OContains string | OStartsWith string | OEndsWith string
  | ORegex 're | OCidr 'n | OIn "string list"
  | OGt int | OLt int | OGe int | OLe int
  | ODetectSqli | ODetectXss
  | OTimeBetween nat nat int
  | ODayOfWeek "8 word" int

datatype transform = TLowercase | TUppercase | TUrlDecode | TCompressWs | TRemoveNulls | TTrim

record ('re, 'n) compiled_cond =
  cc_field :: field
  cc_op :: "('re, 'n) oper"
  cc_negate :: bool
  cc_transforms :: "transform list"

datatype 'b action =
    ABlock u16 string
  | AAllow
  | ALog
  | ARateLimit "'b ip_rate_limiter"
  | AScore u32
  | AIncr string u64 u64

record ('re, 'n, 'b) compiled_rule =
  r_id :: string
  r_action :: "'b action"
  r_conds :: "('re, 'n) compiled_cond list"

record ('re, 'n, 'b) rule_set =
  req_rules :: "('re, 'n, 'b) compiled_rule list"
  resp_rules :: "('re, 'n, 'b) compiled_rule list"
  threshold :: u32
  anomaly_status :: u16
  anomaly_msg :: string

datatype rule_msg =
    FieldNeedsName string
  | UnknownField string
  | BadTz string
  | NotNumeric string string
  | BadRegex string
  | CidrNeedsIp
  | BadCidr string
  | InNeedsValues
  | TimeBetweenNeedsTime
  | BadTimeWindow string
  | DayOfWeekNeedsDay
  | BadDaySpec string
  | NeedsLibinjection string
  | UnknownOp string
  | TimeNeedsTimeBetween
  | DayNeedsDayOfWeek
  | UnknownTransform string
  | NeedsWhen
  | RespFieldInRequest
  | ReqFieldInResponse
  | ReqActionInResponse
  | BadStatus u16
  | RateLimitNeedsRps
  | ScoreNeedsScore
  | IncrNeedsCounter

datatype rule_error = RuleRead string | RuleParse string | RuleInvalid string rule_msg

section \<open>Compiling a condition\<close>

text \<open>\<open>collect::<Result<Vec<_>, _>>\<close>: the first error wins.\<close>

fun collect_results :: "('a \<Rightarrow> 'e + 'b) \<Rightarrow> 'a list \<Rightarrow> 'e + 'b list" where
  "collect_results f [] = Inr []"
| "collect_results f (x # xs) = (case f x of
     Inl e \<Rightarrow> Inl e
   | Inr y \<Rightarrow> (case collect_results f xs of Inl e \<Rightarrow> Inl e | Inr ys \<Rightarrow> Inr (y # ys)))"

definition named_field :: "cond_def \<Rightarrow> (string \<Rightarrow> field) \<Rightarrow> string \<Rightarrow> rule_msg + field" where
  "named_field c mk nm = (if trim (cd_name c) = [] then Inl (FieldNeedsName (cd_field c)) else Inr (mk nm))"

definition plain_fields :: "(string \<times> field) list" where
  "plain_fields =
    [(''method'', FMethod), (''path'', FPath), (''query'', FQuery), (''uri'', FUri), (''body'', FBody),
     (''ip'', FIp), (''country'', FCountry), (''status'', FStatus), (''resp_body'', FRespBody),
     (''arg_names'', FArgNames), (''args_count'', FArgsCount), (''args'', FArgs), (''headers'', FHeaders),
     (''header_names'', FHeaderNames), (''cookies'', FCookies), (''cookie_names'', FCookieNames),
     (''time'', FTime), (''day'', FDay)]"

definition compile_field :: "cond_def \<Rightarrow> rule_msg + field" where
  "compile_field c =
     (if cd_field c = ''header'' then named_field c FHeader (to_ascii_lowercase (cd_name c))
      else if cd_field c = ''arg'' then named_field c FArg (cd_name c)
      else if cd_field c = ''counter'' then named_field c FCounter (cd_name c)
      else if cd_field c = ''resp_header'' then named_field c FRespHeader (to_ascii_lowercase (cd_name c))
      else if cd_field c = ''cookie'' then named_field c FCookie (cd_name c)
      else case map_of plain_fields (cd_field c) of
        Some f \<Rightarrow> Inr f
      | None \<Rightarrow> Inl (UnknownField (cd_field c)))"

definition resolve_tz :: "cond_def \<Rightarrow> int \<Rightarrow> rule_msg + int" where
  "resolve_tz c default_tz =
     (if trim (cd_tz c) = [] then Inr default_tz
      else case parse_tz_offset (cd_tz c) of
        None \<Rightarrow> Inl (BadTz (cd_tz c))
      | Some o' \<Rightarrow> Inr o')"

definition num_op :: "cond_def \<Rightarrow> (int \<Rightarrow> ('re, 'n) oper) \<Rightarrow> rule_msg + ('re, 'n) oper" where
  "num_op c mk = (case parse_i64 (trim (cd_value c)) of
     None \<Rightarrow> Inl (NotNumeric (cd_op c) (cd_value c))
   | Some n \<Rightarrow> Inr (mk n))"

definition tz_op :: "cond_def \<Rightarrow> int \<Rightarrow> (int \<Rightarrow> ('re, 'n) oper) \<Rightarrow> rule_msg + ('re, 'n) oper" where
  "tz_op c default_tz mk = (case resolve_tz c default_tz of Inl e \<Rightarrow> Inl e | Inr o' \<Rightarrow> Inr (mk o'))"

definition compile_op ::
  "('h, 'n, 'z) net_deps_scheme \<Rightarrow> ('re, 'y) rule_deps_scheme \<Rightarrow> cond_def \<Rightarrow> field \<Rightarrow> int \<Rightarrow>
     rule_msg + ('re, 'n) oper" where
  "compile_op D R c f default_tz =
     (let name = cd_op c; v = cd_value c in
      if name = ''eq'' then Inr (OEq v)
      else if name = ''ne'' then Inr (ONe v)
      else if name = ''contains'' then Inr (OContains v)
      else if name = ''starts_with'' then Inr (OStartsWith v)
      else if name = ''ends_with'' then Inr (OEndsWith v)
      else if name = ''regex'' then
        (case re_new R v of Inl e \<Rightarrow> Inl (BadRegex e) | Inr r \<Rightarrow> Inr (ORegex r))
      else if name = ''cidr'' then
        (if f \<noteq> FIp then Inl CidrNeedsIp
         else case parse_net D v of None \<Rightarrow> Inl (BadCidr v) | Some n \<Rightarrow> Inr (OCidr n))
      else if name = ''in'' then
        (if cd_values c = [] then Inl InNeedsValues else Inr (OIn (cd_values c)))
      else if name = ''gt'' then num_op c OGt
      else if name = ''lt'' then num_op c OLt
      else if name = ''ge'' then num_op c OGe
      else if name = ''le'' then num_op c OLe
      else if name = ''time_between'' then
        (if f \<noteq> FTime then Inl TimeBetweenNeedsTime
         else case parse_time_window v of
           None \<Rightarrow> Inl (BadTimeWindow v)
         | Some (a, b) \<Rightarrow> tz_op c default_tz (OTimeBetween a b))
      else if name = ''day_of_week'' then
        (if f \<noteq> FDay then Inl DayOfWeekNeedsDay
         else case parse_day_mask v of
           None \<Rightarrow> Inl (BadDaySpec v)
         | Some m \<Rightarrow> tz_op c default_tz (ODayOfWeek m))
      else if name = ''detect_sqli'' then
        (if libinjection R then Inr ODetectSqli else Inl (NeedsLibinjection name))
      else if name = ''detect_xss'' then
        (if libinjection R then Inr ODetectXss else Inl (NeedsLibinjection name))
      else Inl (UnknownOp name))"

definition is_time_op :: "('re, 'n) oper \<Rightarrow> bool" where
  "is_time_op x = (case x of OTimeBetween _ _ _ \<Rightarrow> True | _ \<Rightarrow> False)"

definition is_day_op :: "('re, 'n) oper \<Rightarrow> bool" where
  "is_day_op x = (case x of ODayOfWeek _ _ \<Rightarrow> True | _ \<Rightarrow> False)"

definition compile_transform :: "string \<Rightarrow> rule_msg + transform" where
  "compile_transform t =
     (if t = ''lowercase'' then Inr TLowercase
      else if t = ''uppercase'' then Inr TUppercase
      else if t = ''url_decode'' then Inr TUrlDecode
      else if t = ''compress_ws'' then Inr TCompressWs
      else if t = ''remove_nulls'' then Inr TRemoveNulls
      else if t = ''trim'' then Inr TTrim
      else Inl (UnknownTransform t))"

definition compile_cond ::
  "('h, 'n, 'z) net_deps_scheme \<Rightarrow> ('re, 'y) rule_deps_scheme \<Rightarrow> int \<Rightarrow> cond_def \<Rightarrow>
     rule_msg + ('re, 'n) compiled_cond" where
  "compile_cond D R default_tz c = (case compile_field c of
     Inl e \<Rightarrow> Inl e
   | Inr f \<Rightarrow> (case compile_op D R c f default_tz of
       Inl e \<Rightarrow> Inl e
     | Inr x \<Rightarrow>
         if f = FTime \<and> \<not> is_time_op x then Inl TimeNeedsTimeBetween
         else if f = FDay \<and> \<not> is_day_op x then Inl DayNeedsDayOfWeek
         else (case collect_results compile_transform (cd_transform c) of
             Inl e \<Rightarrow> Inl e
           | Inr ts \<Rightarrow> Inr \<lparr>cc_field = f, cc_op = x, cc_negate = cd_negate c, cc_transforms = ts\<rparr>)))"

section \<open>Compiling a rule set\<close>

definition resp_field :: "field \<Rightarrow> bool" where
  "resp_field f = (case f of FStatus \<Rightarrow> True | FRespHeader _ \<Rightarrow> True | FRespBody \<Rightarrow> True | _ \<Rightarrow> False)"

definition resp_phase_field :: "field \<Rightarrow> bool" where
  "resp_phase_field f =
     (resp_field f \<or> (case f of FIp \<Rightarrow> True | FPath \<Rightarrow> True | FCounter _ \<Rightarrow> True | _ \<Rightarrow> False))"

fun phase_check :: "phase_kind \<Rightarrow> ('re, 'n) compiled_cond list \<Rightarrow> rule_msg option" where
  "phase_check ph [] = None"
| "phase_check ph (c # cs) =
     (if ph = PhRequest \<and> resp_field (cc_field c) then Some RespFieldInRequest
      else if ph = PhResponse \<and> \<not> resp_phase_field (cc_field c) then Some ReqFieldInResponse
      else phase_check ph cs)"

definition compile_action ::
  "('h, 'n, 'b, 'c, 'z) limit_deps_scheme \<Rightarrow> rule_def \<Rightarrow> rule_msg + 'b action" where
  "compile_action D d = (case rd_action d of
     AkBlock \<Rightarrow>
       if status_ok D (rd_status d) then
         Inr (ABlock (rd_status d) (if rd_msg d = [] then rd_id d else rd_msg d))
       else Inl (BadStatus (rd_status d))
   | AkAllow \<Rightarrow> Inr AAllow
   | AkLog \<Rightarrow> Inr ALog
   | AkRateLimit \<Rightarrow>
       if rd_rps d = 0 then Inl RateLimitNeedsRps
       else Inr (ARateLimit (limiter_new D (rd_rps d) (rd_burst d) (rd_ttl_secs d)))
   | AkScore \<Rightarrow> if rd_score d = 0 then Inl ScoreNeedsScore else Inr (AScore (rd_score d))
   | AkIncr \<Rightarrow>
       if trim (rd_counter d) = [] then Inl IncrNeedsCounter
       else Inr (AIncr (rd_counter d) (rd_incr d) (rd_ttl_secs d)))"

definition compile_rule ::
  "('h, 'n, 'b, 'c, 'z) limit_deps_scheme \<Rightarrow> ('re, 'y) rule_deps_scheme \<Rightarrow> int \<Rightarrow> rule_def \<Rightarrow>
     rule_msg + ('re, 'n, 'b) compiled_rule" where
  "compile_rule D R default_tz d = (case collect_results (compile_cond D R default_tz) (rd_when d) of
     Inl e \<Rightarrow> Inl e
   | Inr conds \<Rightarrow>
       if conds = [] then Inl NeedsWhen
       else case phase_check (rd_phase d) conds of
         Some e \<Rightarrow> Inl e
       | None \<Rightarrow>
           if rd_phase d = PhResponse \<and> rd_action d \<notin> {AkBlock, AkLog, AkIncr} then Inl ReqActionInResponse
           else (case compile_action D d of
               Inl e \<Rightarrow> Inl e
             | Inr a \<Rightarrow> Inr \<lparr>r_id = rd_id d, r_action = a, r_conds = conds\<rparr>))"

fun compile_rules ::
  "('h, 'n, 'b, 'c, 'z) limit_deps_scheme \<Rightarrow> ('re, 'y) rule_deps_scheme \<Rightarrow> int \<Rightarrow> rule_def list \<Rightarrow>
     ('re, 'n, 'b) compiled_rule list \<Rightarrow> ('re, 'n, 'b) compiled_rule list \<Rightarrow>
     rule_error + ('re, 'n, 'b) compiled_rule list \<times> ('re, 'n, 'b) compiled_rule list" where
  "compile_rules D R default_tz [] rules response_rules = Inr (rules, response_rules)"
| "compile_rules D R default_tz (d # ds) rules response_rules =
     (case compile_rule D R default_tz d of
        Inl e \<Rightarrow> Inl (RuleInvalid (rd_id d) e)
      | Inr r \<Rightarrow> (case rd_phase d of
          PhRequest \<Rightarrow> compile_rules D R default_tz ds (rules @ [r]) response_rules
        | PhResponse \<Rightarrow> compile_rules D R default_tz ds rules (response_rules @ [r])))"

definition rules_empty :: "('re, 'n, 'b) rule_set" where
  "rules_empty = \<lparr>req_rules = [], resp_rules = [], threshold = 0, anomaly_status = 403,
     anomaly_msg = ''anomaly score threshold exceeded''\<rparr>"

definition apply_scoring ::
  "('h, 'z) http_deps_scheme \<Rightarrow> scoring_config \<Rightarrow> ('re, 'n, 'b) rule_set \<Rightarrow>
     rule_error + ('re, 'n, 'b) rule_set" where
  "apply_scoring D sc rs =
     (if status_ok D (sc_status sc) then
        Inr (rs\<lparr>threshold := sc_threshold sc, anomaly_status := sc_status sc, anomaly_msg := sc_msg sc\<rparr>)
      else Inl (RuleInvalid ''[scoring]'' (BadStatus (sc_status sc))))"

definition compile_with_tz ::
  "('h, 'n, 'b, 'c, 'z) limit_deps_scheme \<Rightarrow> ('re, 'y) rule_deps_scheme \<Rightarrow> rule_def list \<Rightarrow>
     scoring_config \<Rightarrow> int \<Rightarrow> rule_error + ('re, 'n, 'b) rule_set" where
  "compile_with_tz D R defs sc default_tz = (case compile_rules D R default_tz defs [] [] of
     Inl e \<Rightarrow> Inl e
   | Inr (rules, response_rules) \<Rightarrow>
       apply_scoring D sc (rules_empty\<lparr>req_rules := rules, resp_rules := response_rules\<rparr>))"

text \<open>\<open>read\<close> is \<open>fs::read_to_string\<close>, \<open>from_toml\<close> the decoder of a \<open>[[rule]]\<close> file.\<close>

definition rules_load ::
  "('h, 'n, 'b, 'c, 'z) limit_deps_scheme \<Rightarrow> ('re, 'y) rule_deps_scheme \<Rightarrow> (string \<Rightarrow> string + string) \<Rightarrow>
     (string \<Rightarrow> string + rule_def list) \<Rightarrow> string \<Rightarrow> scoring_config \<Rightarrow> int \<Rightarrow>
     rule_error + ('re, 'n, 'b) rule_set" where
  "rules_load D R read from_toml path sc default_tz =
     (if trim path = [] then apply_scoring D sc rules_empty
      else case read path of
        Inl e \<Rightarrow> Inl (RuleRead (path @ '': '' @ e))
      | Inr txt \<Rightarrow> (case from_toml txt of
          Inl e \<Rightarrow> Inl (RuleParse e)
        | Inr defs \<Rightarrow> compile_with_tz D R defs sc default_tz))"

lemma collect_results_Inr:
  "collect_results f xs = Inr ys \<Longrightarrow> list_all2 (\<lambda>x y. f x = Inr y) xs ys"
  by (induction f xs arbitrary: ys rule: collect_results.induct) (auto split: sum.splits)

end
