(* ===== verification/Rule_Args.thy ===== *)
theory Rule_Args
  imports Parser Rule_Compile
begin

text \<open>
  Argument extraction of \<open>crates/budu-rules/src/ruleset.rs\<close>: query and form pairs, flattened JSON,
  \<open>multipart/form-data\<close> parts and cookies. The JSON decoder (\<open>serde_json\<close>) is a parameter that gives a
  value of \<open>json\<close>; a number is the text it prints as, an object its entries in the map's order.
  Shown: form pairs are read back from every percent-encoding of them; every JSON scalar reaches the
  argument list under its dotted path; splitting loses nothing; the parts of a well-formed multipart
  body are read back.
\<close>

section \<open>Pairs and cookies\<close>

definition pair_of :: "string \<Rightarrow> string \<times> string" where
  "pair_of p = (case split_once (CHR ''='') p of Some kv \<Rightarrow> kv | None \<Rightarrow> (p, []))"

fun parse_pair_list :: "string list \<Rightarrow> (string \<times> string) list \<Rightarrow> (string \<times> string) list" where
  "parse_pair_list [] out = out"
| "parse_pair_list (p # ps) out =
     (if p = [] then parse_pair_list ps out
      else let (k, v) = pair_of p in
           parse_pair_list ps (out @ [(decode_into k True [], decode_into v True [])]))"

definition parse_pairs :: "string \<Rightarrow> (string \<times> string) list \<Rightarrow> (string \<times> string) list" where
  "parse_pairs s out = parse_pair_list (split_char (CHR ''&'') s) out"

definition cookie_of :: "string \<Rightarrow> (string \<times> string) option" where
  "cookie_of p0 =
     (let p = trim p0 in
      if p = [] then None else let (k, v) = pair_of p in Some (trim k, trim v))"

definition collect_cookies :: "('h, 'z) http_deps_scheme \<Rightarrow> 'h request_ctx \<Rightarrow> (string \<times> string) list" where
  "collect_cookies D ctx = (case header_str D (rq_headers ctx) ''cookie'' of
     None \<Rightarrow> []
   | Some c \<Rightarrow> List.map_filter cookie_of (split_char (CHR '';'') c))"

section \<open>JSON\<close>

definition json_child :: "string \<Rightarrow> string \<Rightarrow> string" where
  "json_child pfx key = (if pfx = [] then key else pfx @ ''.'' @ key)"

fun flatten_json :: "string \<Rightarrow> json \<Rightarrow> (string \<times> string) list \<Rightarrow> (string \<times> string) list"
  and flatten_arr :: "string \<Rightarrow> nat \<Rightarrow> json list \<Rightarrow> (string \<times> string) list \<Rightarrow> (string \<times> string) list"
  and flatten_obj :: "string \<Rightarrow> (string \<times> json) list \<Rightarrow> (string \<times> string) list \<Rightarrow> (string \<times> string) list" where
  "flatten_json pfx (JObj kvs) out = flatten_obj pfx kvs out"
| "flatten_json pfx (JArr vs) out = flatten_arr pfx 0 vs out"
| "flatten_json pfx (JStr s) out = out @ [(pfx, s)]"
| "flatten_json pfx (JNum n) out = out @ [(pfx, n)]"
| "flatten_json pfx (JBool b) out = out @ [(pfx, if b then ''true'' else ''false'')]"
| "flatten_json pfx JNull out = out @ [(pfx, [])]"
| "flatten_arr pfx i [] out = out"
| "flatten_arr pfx i (v # vs) out =
     flatten_arr pfx (i + 1) vs (flatten_json (json_child pfx (show_nat i)) v out)"
| "flatten_obj pfx [] out = out"
| "flatten_obj pfx (kv # kvs) out =
     flatten_obj pfx kvs (flatten_json (json_child pfx (fst kv)) (snd kv) out)"

definition parse_json_args ::
  "(bytes \<Rightarrow> json option) \<Rightarrow> bytes \<Rightarrow> (string \<times> string) list \<Rightarrow> (string \<times> string) list" where
  "parse_json_args json_of b out = (case json_of b of
     Some v \<Rightarrow> flatten_json [] v out
   | None \<Rightarrow> out)"

section \<open>Multipart\<close>

text \<open>The byte-subslice \<open>hay[i..i + n]\<close>, in range where the sources take it.\<close>

definition subslice :: "nat \<Rightarrow> nat \<Rightarrow> 'a list \<Rightarrow> 'a list" where
  "subslice i n xs = take n (drop i xs)"

function split_loop :: "bytes \<Rightarrow> bytes \<Rightarrow> nat \<Rightarrow> nat \<Rightarrow> bytes list \<Rightarrow> bytes list" where
  "split_loop hay needle start i segs =
     (if needle \<noteq> [] \<and> i + length needle \<le> length hay then
        (if subslice i (length needle) hay = needle then
           split_loop hay needle (i + length needle) (i + length needle) (segs @ [subslice start (i - start) hay])
         else split_loop hay needle start (i + 1) segs)
      else segs @ [drop start hay])"
  by pat_completeness auto
termination
  by (relation "measure (\<lambda>(hay, needle, start, i, segs). length hay - i)")
     (auto simp flip: length_greater_0_conv intro!: diff_less_mono2)

definition split_on :: "bytes \<Rightarrow> bytes \<Rightarrow> bytes list" where
  "split_on hay needle = (if needle = [] then [hay] else split_loop hay needle 0 0 [])"

definition find_sub :: "bytes \<Rightarrow> bytes \<Rightarrow> nat option" where
  "find_sub hay needle =
     (if needle = [] \<or> length hay < length needle then None
      else find (\<lambda>i. subslice i (length needle) hay = needle) [0..<length hay - length needle + 1])"

fun boundary_params :: "string list \<Rightarrow> string option" where
  "boundary_params [] = None"
| "boundary_params (p # ps) = (case split_once (CHR ''='') (trim p) of
     None \<Rightarrow> None
   | Some (k, v) \<Rightarrow>
       if eq_ignore_ascii_case (trim k) ''boundary'' then Some (trim_matches (CHR 0x22) (trim v))
       else boundary_params ps)"

definition extract_boundary :: "string \<Rightarrow> string option" where
  "extract_boundary content_type = boundary_params (tl (split_char (CHR '';'') content_type))"

fun disposition_params ::
  "string list \<Rightarrow> string option \<times> string option \<Rightarrow> string option \<times> string option" where
  "disposition_params [] nf = nf"
| "disposition_params (p # ps) (name, filename) =
     (let param = trim p in
      case strip_prefix ''name='' param of
        Some rest \<Rightarrow> disposition_params ps (Some (trim_matches (CHR 0x22) rest), filename)
      | None \<Rightarrow> (case strip_prefix ''filename='' param of
          Some rest \<Rightarrow> disposition_params ps (name, Some (trim_matches (CHR 0x22) rest))
        | None \<Rightarrow> disposition_params ps (name, filename)))"

fun disposition_lines :: "string list \<Rightarrow> (string \<times> string option) option" where
  "disposition_lines [] = None"
| "disposition_lines (l # ls) = (case split_once (CHR '':'') l of
     None \<Rightarrow> None
   | Some (k, v) \<Rightarrow>
       if \<not> eq_ignore_ascii_case (trim k) ''content-disposition'' then disposition_lines ls
       else let (name, filename) = disposition_params (tl (split_char (CHR '';'') v)) (None, None)
            in map_option (\<lambda>n. (n, filename)) name)"

definition disposition_fields :: "bytes \<Rightarrow> (string \<times> string option) option" where
  "disposition_fields head = disposition_lines (split_on (from_utf8_lossy head) crlf)"

text \<open>One turn of the loop over the segments: the pair to push, if any.\<close>

definition multipart_seg :: "bytes \<Rightarrow> (string \<times> string) option" where
  "multipart_seg seg0 =
     (let seg = unwrap_or (strip_prefix crlf seg0) seg0 in
      if seg = [] \<or> starts_with ''--'' seg then None
      else case find_sub seg (crlf @ crlf) of
        None \<Rightarrow> None
      | Some pos \<Rightarrow>
          let head = take pos seg;
              val0 = drop (pos + 4) seg;
              val = unwrap_or (strip_suffix crlf val0) val0
          in case disposition_fields head of
               None \<Rightarrow> None
             | Some (name, filename) \<Rightarrow>
                 Some (name, case filename of Some f \<Rightarrow> f | None \<Rightarrow> from_utf8_lossy val))"

definition parse_multipart_args ::
  "bytes \<Rightarrow> string \<Rightarrow> (string \<times> string) list \<Rightarrow> (string \<times> string) list" where
  "parse_multipart_args body content_type out = (case extract_boundary content_type of
     None \<Rightarrow> out
   | Some boundary \<Rightarrow> out @ List.map_filter multipart_seg (split_on body (''--'' @ boundary)))"

section \<open>Dispatch by content type\<close>

definition collect_args ::
  "('h, 'z) http_deps_scheme \<Rightarrow> (bytes \<Rightarrow> json option) \<Rightarrow> 'h request_ctx \<Rightarrow> (string \<times> string) list" where
  "collect_args D json_of ctx =
     (let out = (case rq_query ctx of Some q \<Rightarrow> parse_pairs q [] | None \<Rightarrow> []) in
      case rq_body ctx of
        Buffered b \<Rightarrow> (case header_str D (rq_headers ctx) ''content-type'' of
            None \<Rightarrow> out
          | Some ct \<Rightarrow>
              let ctl = to_ascii_lowercase ct in
              if starts_with ''application/x-www-form-urlencoded'' ctl then parse_pairs (from_utf8_lossy b) out
              else if starts_with ''application/json'' ctl \<or> starts_with ''text/json'' ctl \<or>
                      ends_with ''+json'' ctl then parse_json_args json_of b out
              else if starts_with ''multipart/form-data'' ctl then parse_multipart_args b ct out
              else out)
      | _ \<Rightarrow> out)"

declare split_loop.simps [simp del]

section \<open>Splitting\<close>

text \<open>The index loop computes the structural splitter \<open>cut_at\<close>: the piece being read is kept reversed.\<close>

function cut_at :: "bytes \<Rightarrow> bytes \<Rightarrow> bytes \<Rightarrow> bytes list" where
  "cut_at needle acc s =
     (if s = [] then [rev acc]
      else if needle \<noteq> [] \<and> starts_with needle s then rev acc # cut_at needle [] (drop (length needle) s)
      else cut_at needle (hd s # acc) (tl s))"
  by pat_completeness auto
termination
  by (relation "measure (\<lambda>(needle, acc, s). length s)") auto

declare cut_at.simps [simp del]

lemma cut_Nil [simp]: "cut_at needle acc [] = [rev acc]"
  by (simp add: cut_at.simps)

lemma cut_match: "needle \<noteq> [] \<Longrightarrow> cut_at needle acc (needle @ s) = rev acc # cut_at needle [] s"
  by (subst cut_at.simps) (simp add: starts_with_def)

lemma cut_step:
  "needle \<noteq> [] \<Longrightarrow> \<not> starts_with needle (c # s) \<Longrightarrow> cut_at needle acc (c # s) = cut_at needle (c # acc) s"
  by (subst cut_at.simps) simp

lemma cut_short: "length s < length needle \<Longrightarrow> cut_at needle acc s = [rev acc @ s]"
proof (induction s arbitrary: acc)
  case (Cons c s)
  then have "\<not> starts_with needle (c # s)"
    by (auto simp: starts_with_iff dest!: arg_cong [where f = length])
  with Cons show ?case by (subst cut_at.simps) auto
qed simp

lemma subslice_Suc:
  "start \<le> i \<Longrightarrow> i < length hay \<Longrightarrow>
     subslice start (Suc i - start) hay = subslice start (i - start) hay @ [hay ! i]"
  by (simp add: subslice_def Suc_diff_le take_Suc_conv_app_nth)

lemma split_loop_cut:
  assumes "needle \<noteq> []" "start \<le> i" "i \<le> length hay"
  shows "split_loop hay needle start i segs =
    segs @ cut_at needle (rev (subslice start (i - start) hay)) (drop i hay)"
  using assms
proof (induction hay needle start i segs rule: split_loop.induct)
  case (1 hay needle start i segs)
  let ?n = "length needle"
  consider (short) "length hay < i + ?n" | (match) "i + ?n \<le> length hay" "subslice i ?n hay = needle"
    | (miss) "i + ?n \<le> length hay" "subslice i ?n hay \<noteq> needle" by linarith
  then show ?case
  proof cases
    case short
    have "subslice start (i - start) hay @ drop i hay = drop start hay"
      using "1.prems"(2) append_take_drop_id [of "i - start" "drop start hay"] by (simp add: subslice_def)
    moreover have "length (drop i hay) < ?n" using short "1.prems"(3) by simp
    ultimately show ?thesis
      using short by (subst split_loop.simps) (simp add: cut_short)
  next
    case match
    then have "drop i hay = needle @ drop (i + ?n) hay"
      by (metis add.commute append_take_drop_id drop_drop subslice_def)
    with match "1.IH"(1) "1.prems" show ?thesis
      by (subst split_loop.simps) (simp add: cut_match subslice_def)
  next
    case miss
    with "1.prems"(1) have i: "i < length hay" by (cases needle) auto
    then have d: "drop i hay = hay ! i # drop (Suc i) hay" by (simp add: Cons_nth_drop_Suc)
    have "\<not> starts_with needle (drop i hay)"
      using miss(2) by (simp add: starts_with_def subslice_def)
    with miss i d "1.IH"(2) "1.prems" show ?thesis
      by (subst split_loop.simps) (simp add: cut_step subslice_Suc)
  qed
qed

lemma split_on_cut: "split_on hay needle = cut_at needle [] hay"
proof (cases "needle = []")
  case True
  have "cut_at [] acc s = [rev acc @ s]" for acc s
    by (induction s arbitrary: acc) (simp_all add: cut_at.simps)
  with True show ?thesis by (simp add: split_on_def)
qed (simp add: split_on_def split_loop_cut subslice_def)

lemma cut_nonempty: "cut_at needle acc s \<noteq> []"
  by (induction needle acc s rule: cut_at.induct) (subst cut_at.simps, simp)

lemma join_cut: "join needle (cut_at needle acc s) = rev acc @ s"
proof (induction needle acc s rule: cut_at.induct)
  case (1 needle acc s)
  show ?case
  proof (cases "s \<noteq> [] \<and> needle \<noteq> [] \<and> starts_with needle s")
    case True
    then obtain r where r: "s = needle @ r" by (auto simp: starts_with_iff)
    with True 1 show ?thesis by (simp add: cut_match join_Cons cut_nonempty)
  next
    case False
    with 1 show ?thesis by (subst cut_at.simps) (cases s; auto)
  qed
qed

text \<open>Where the separator first appears behind a piece, the piece is cut_at off there.\<close>

definition clean :: "bytes \<Rightarrow> bytes \<Rightarrow> bool" where
  "clean needle p \<longleftrightarrow> list_all (\<lambda>k. \<not> starts_with needle (drop k (p @ needle))) [0..<length p]"

lemma clean_iff: "clean needle p \<longleftrightarrow> (\<forall>k<length p. \<not> starts_with needle (drop k (p @ needle)))"
  by (auto simp: clean_def list_all_iff)

lemma starts_with_append_long:
  "length needle \<le> length a \<Longrightarrow> starts_with needle (a @ b) \<longleftrightarrow> starts_with needle a"
  by (simp add: starts_with_def)

lemma clean_Cons: "clean needle (c # p) \<Longrightarrow> clean needle p \<and> \<not> starts_with needle (c # p @ needle)"
  unfolding clean_iff by (metis Suc_less_eq append_Cons drop0 drop_Suc_Cons length_Cons zero_less_Suc)

lemma cut_clean:
  "needle \<noteq> [] \<Longrightarrow> clean needle p \<Longrightarrow> cut_at needle acc (p @ needle @ s) = (rev acc @ p) # cut_at needle [] s"
proof (induction p arbitrary: acc)
  case (Cons c p)
  then have "\<not> starts_with needle (c # p @ needle @ s)"
    using clean_Cons [of needle c p] starts_with_append_long [of needle "c # p @ needle" s] by simp
  with Cons clean_Cons [of needle c p] show ?case by (simp add: cut_step)
qed (simp add: cut_match)

lemma cut_none: "needle \<noteq> [] \<Longrightarrow> \<not> contains_str p needle \<Longrightarrow> cut_at needle acc p = [rev acc @ p]"
proof (induction p arbitrary: acc)
  case (Cons c p)
  then have "\<not> starts_with needle (c # p)" "\<not> contains_str p needle"
    by (metis append_Cons append_Nil contains_str_iff starts_with_iff)+
  with Cons show ?case by (simp add: cut_step)
qed simp

lemma cut_join:
  "needle \<noteq> [] \<Longrightarrow> \<forall>p\<in>set ps. clean needle p \<Longrightarrow> \<not> contains_str q needle \<Longrightarrow>
     cut_at needle [] (join needle (ps @ [q])) = ps @ [q]"
  by (induction ps) (simp_all add: join_Cons cut_clean cut_none)

text \<open>The contract of a splitter: the pieces joined again are the input, so no byte is lost.\<close>

locale splitter =
  fixes split_by :: "'s \<Rightarrow> string \<Rightarrow> string list" and sep_text :: "'s \<Rightarrow> string"
  assumes join_split: "join (sep_text c) (split_by c s) = s"
begin

lemma split_inject: "split_by c s = split_by c t \<longleftrightarrow> s = t"
  by (metis join_split)

lemma piece_bytes: "p \<in> set (split_by c s) \<Longrightarrow> set p \<subseteq> set s"
proof -
  have "p \<in> set ps \<Longrightarrow> set p \<subseteq> set (join (sep_text c) ps)" for ps
    by (induction "sep_text c" ps rule: join.induct) auto
  then show "p \<in> set (split_by c s) \<Longrightarrow> set p \<subseteq> set s"
    using join_split by metis
qed

end

interpretation char_split: splitter split_char "\<lambda>c. [c]"
  by unfold_locales (rule join_split_char)

interpretation seg_split: splitter "\<lambda>needle hay. split_on hay needle" "\<lambda>needle. needle"
  by unfold_locales (simp add: split_on_cut join_cut)

section \<open>Form pairs\<close>

lemma concat_push_byte_raw:
  "list_all is_ascii s \<Longrightarrow> concat (map (\<lambda>c. push_byte [] c False) s) = s"
  by (induction s) (auto simp: push_byte_def)

lemma decode_into_variant:
  "pct_variant p e s \<Longrightarrow> list_all is_ascii s \<Longrightarrow> decode_into e p [] = s"
  by (simp add: decode_into_def decode_pct_variant concat_push_byte_raw)

text \<open>\<open>form_variant e (k, v)\<close>: \<open>e\<close> is one of the ways to write the pair in a form body or a query.\<close>

definition form_variant :: "string \<Rightarrow> string \<times> string \<Rightarrow> bool" where
  "form_variant e kv \<longleftrightarrow> (\<exists>ek ev. e = ek @ ''='' @ ev \<and> CHR ''='' \<notin> set ek \<and> CHR ''&'' \<notin> set e \<and>
     pct_variant True ek (fst kv) \<and> pct_variant True ev (snd kv) \<and>
     list_all is_ascii (fst kv) \<and> list_all is_ascii (snd kv))"

lemma parse_pair_variant:
  assumes "form_variant e kv"
  shows "parse_pair_list (e # es) out = parse_pair_list es (out @ [kv])"
proof -
  obtain ek ev where e: "e = ek @ CHR ''='' # ev" "CHR ''='' \<notin> set ek"
    "pct_variant True ek (fst kv)" "pct_variant True ev (snd kv)"
    "list_all is_ascii (fst kv)" "list_all is_ascii (snd kv)"
    using assms by (auto simp: form_variant_def)
  have "split_once (CHR ''='') e = Some (ek, ev)" by (simp add: e(1,2) split_once_Some_iff)
  with e show ?thesis by (simp add: pair_of_def decode_into_variant)
qed

section \<open>JSON leaves\<close>

text \<open>The scalars of a value with the path of keys and indices that leads to each.\<close>

fun json_leaves :: "json \<Rightarrow> (string list \<times> string) list"
  and json_leaves_arr :: "nat \<Rightarrow> json list \<Rightarrow> (string list \<times> string) list"
  and json_leaves_obj :: "(string \<times> json) list \<Rightarrow> (string list \<times> string) list" where
  "json_leaves (JObj kvs) = json_leaves_obj kvs"
| "json_leaves (JArr vs) = json_leaves_arr 0 vs"
| "json_leaves (JStr s) = [([], s)]"
| "json_leaves (JNum n) = [([], n)]"
| "json_leaves (JBool b) = [([], if b then ''true'' else ''false'')]"
| "json_leaves JNull = [([], [])]"
| "json_leaves_arr i [] = []"
| "json_leaves_arr i (v # vs) =
     map (\<lambda>l. (show_nat i # fst l, snd l)) (json_leaves v) @ json_leaves_arr (i + 1) vs"
| "json_leaves_obj [] = []"
| "json_leaves_obj (kv # kvs) =
     map (\<lambda>l. (fst kv # fst l, snd l)) (json_leaves (snd kv)) @ json_leaves_obj kvs"

fun keys_ok :: "json \<Rightarrow> bool" where
  "keys_ok (JObj kvs) \<longleftrightarrow> list_all (\<lambda>kv. fst kv \<noteq> [] \<and> keys_ok (snd kv)) kvs"
| "keys_ok (JArr vs) \<longleftrightarrow> list_all keys_ok vs"
| "keys_ok _ \<longleftrightarrow> True"

abbreviation dotted :: "string list \<Rightarrow> string list \<times> string \<Rightarrow> string \<times> string" where
  "dotted ps l \<equiv> (join ''.'' (ps @ fst l), snd l)"

lemma join_nonempty: "ps \<noteq> [] \<Longrightarrow> [] \<notin> set ps \<Longrightarrow> join sep ps \<noteq> []"
  by (induction sep ps rule: join.induct) auto

lemma join_snoc: "join sep (ps @ [k]) = (if ps = [] then k else join sep ps @ sep @ k)"
  by (induction sep ps rule: join.induct) auto

lemma json_child_dotted: "[] \<notin> set ps \<Longrightarrow> json_child (join ''.'' ps) k = join ''.'' (ps @ [k])"
  using join_nonempty [of ps "''.''"] by (auto simp: json_child_def join_snoc)

lemma flatten_values:
  "map snd (flatten_json pfx v out) = map snd out @ map snd (json_leaves v)"
  "map snd (flatten_arr pfx i vs out) = map snd out @ map snd (json_leaves_arr i vs)"
  "map snd (flatten_obj pfx kvs out) = map snd out @ map snd (json_leaves_obj kvs)"
  by (induction pfx v out and pfx i vs out and pfx kvs out
      rule: flatten_json_flatten_arr_flatten_obj.induct) (simp_all add: comp_def)

lemma flatten_paths:
  "[] \<notin> set ps \<Longrightarrow> keys_ok v \<Longrightarrow> pfx = join ''.'' ps \<Longrightarrow>
     flatten_json pfx v out = out @ map (dotted ps) (json_leaves v)"
  "[] \<notin> set ps \<Longrightarrow> list_all keys_ok vs \<Longrightarrow> pfx = join ''.'' ps \<Longrightarrow>
     flatten_arr pfx i vs out = out @ map (dotted ps) (json_leaves_arr i vs)"
  "[] \<notin> set ps \<Longrightarrow> list_all (\<lambda>kv. fst kv \<noteq> [] \<and> keys_ok (snd kv)) kvs \<Longrightarrow> pfx = join ''.'' ps \<Longrightarrow>
     flatten_obj pfx kvs out = out @ map (dotted ps) (json_leaves_obj kvs)"
proof (induction pfx v out and pfx i vs out and pfx kvs out arbitrary: ps and ps and ps
    rule: flatten_json_flatten_arr_flatten_obj.induct)
  case (8 pfx i v vs out)
  from 8(1) [of "ps @ [show_nat i]"] 8(2) [of ps] 8(3-) show_nat_nonempty [of i, symmetric]
  show ?case by (simp add: json_child_dotted comp_def)
next
  case (10 pfx kv kvs out)
  then have "[] \<noteq> fst kv" by auto
  with 10(1) [of "ps @ [fst kv]"] 10(2) [of ps] 10(3-) show ?case
    by (simp add: json_child_dotted comp_def)
qed simp_all

section \<open>Multipart bodies\<close>

lemma from_utf8_lossy_ascii: "list_all is_ascii s \<Longrightarrow> from_utf8_lossy s = s"
  by (simp add: from_utf8_lossy_valid valid_utf8_ascii)

abbreviation quote :: char where "quote \<equiv> CHR 0x22"

definition disposition_line :: "string \<Rightarrow> string" where
  "disposition_line n = ''Content-Disposition: form-data; name='' @ [quote] @ n @ [quote]"

definition form_part :: "string \<times> string \<Rightarrow> bytes" where
  "form_part f = crlf @ disposition_line (fst f) @ crlf @ crlf @ snd f @ crlf"

definition multipart_body :: "string \<Rightarrow> (string \<times> string) list \<Rightarrow> bytes" where
  "multipart_body boundary fs =
     join (''--'' @ boundary) ([] # map form_part fs @ [''--'' @ crlf])"

definition field_name_ok :: "string \<Rightarrow> bool" where
  "field_name_ok n \<longleftrightarrow> list_all is_ascii n \<and> cr \<notin> set n \<and> CHR '';'' \<notin> set n \<and> quote \<notin> set n"

lemma cr_chars: "cr \<notin> set ''Content-Disposition: form-data; name=''" "cr \<noteq> quote"
  by code_simp+

lemma minus_cr: "CHR ''-'' \<noteq> cr" "CHR ''-'' \<noteq> nl" "cr \<noteq> CHR ''-''" "nl \<noteq> CHR ''-''"
  by code_simp+

lemma cr_not_in_line: "field_name_ok n \<Longrightarrow> cr \<notin> set (disposition_line n)"
  using cr_chars by (simp add: disposition_line_def field_name_ok_def)

lemma find_sub_crlf:
  assumes "cr \<notin> set a"
  shows "find_sub (a @ crlf @ crlf @ b) (crlf @ crlf) = Some (length a)"
proof -
  have no: "subslice i 4 (a @ crlf @ crlf @ b) \<noteq> crlf @ crlf" if "i < length a" for i
  proof
    assume "subslice i 4 (a @ crlf @ crlf @ b) = crlf @ crlf"
    then have "hd (subslice i 4 (a @ crlf @ crlf @ b)) = cr" by simp
    moreover have "hd (subslice i 4 (a @ crlf @ crlf @ b)) = a ! i"
      using that by (simp add: subslice_def hd_drop_conv_nth nth_append)
    ultimately show False using assms that by (metis nth_mem)
  qed
  have yes: "subslice (length a) 4 (a @ crlf @ crlf @ b) = crlf @ crlf" by (simp add: subslice_def)
  have four: "length (crlf @ crlf) = 4" by simp
  show ?thesis
    unfolding find_sub_def four
    using find_upt [of "length a" "length (a @ crlf @ crlf @ b) - 4 + 1"
        "\<lambda>i. subslice i 4 (a @ crlf @ crlf @ b) = crlf @ crlf"] no yes by simp
qed

lemma trim_matches_quoted: "quote \<notin> set n \<Longrightarrow> trim_matches quote (quote # n @ [quote]) = n"
proof -
  have "quote \<notin> set xs \<Longrightarrow> dropWhile ((=) quote) xs = xs" for xs
    by (cases xs) auto
  moreover assume "quote \<notin> set n"
  ultimately show ?thesis
    by (cases n) (auto simp: trim_matches_def)
qed

lemma disposition_roundtrip:
  assumes "field_name_ok n"
  shows "disposition_fields (disposition_line n) = Some (n, None)"
proof -
  have n: "list_all is_ascii n" "cr \<notin> set n" "CHR '';'' \<notin> set n" "quote \<notin> set n"
    using assms by (auto simp: field_name_ok_def)
  have "list_all is_ascii (disposition_line n)"
    using n(1) by (simp add: disposition_line_def is_ascii_def bv_def)
  then have l: "from_utf8_lossy (disposition_line n) = disposition_line n" by (rule from_utf8_lossy_ascii)
  have "\<not> contains_str (disposition_line n) crlf"
    using cr_not_in_line [OF assms] by (auto simp: contains_str_iff)
  then have s: "split_on (disposition_line n) crlf = [disposition_line n]"
    by (simp add: split_on_cut cut_none)
  let ?v = "'' form-data; name='' @ [quote] @ n @ [quote]"
  have c: "split_once (CHR '':'') (disposition_line n) = Some (''Content-Disposition'', ?v)"
    by (simp add: split_once_Some_iff disposition_line_def)
  have t: "trim ''Content-Disposition'' = ''Content-Disposition''" by code_simp
  have e: "eq_ignore_ascii_case ''Content-Disposition'' ''content-disposition''" by code_simp
  have "split_char (CHR '';'') ?v = ['' form-data'', '' name='' @ [quote] @ n @ [quote]]"
    using n(3) split_char_append [of "CHR '';''" "'' form-data''" "'' name='' @ [quote] @ n @ [quote]"]
    by (simp add: split_char_single)
  moreover have "trim ('' name='' @ [quote] @ n @ [quote]) = ''name='' @ [quote] @ n @ [quote]"
  proof -
    have "trim_start ('' name='' @ [quote] @ n @ [quote]) = ''name='' @ [quote] @ n @ [quote]"
      by (subst trim_start.simps, simp add: ws_len_space del: ws_len.simps)
         (simp add: trim_start_id ws_len_ascii is_ascii_def ascii_ws_def bv_def del: ws_len.simps)
    then show ?thesis
      by (simp add: trim_def trim_end_def trim_start_rev_id ws_len_rev_ascii is_ascii_def ascii_ws_def bv_def
          del: ws_len_rev.simps)
  qed
  ultimately show ?thesis
    using n(4) by (simp add: disposition_fields_def l s c t e strip_prefix_def starts_with_def
        trim_matches_quoted)
qed

lemma multipart_seg_part:
  assumes "field_name_ok n" "valid_utf8 v"
  shows "multipart_seg (form_part (n, v)) = Some (n, v)"
proof -
  let ?seg = "disposition_line n @ crlf @ crlf @ v @ crlf"
  have "strip_prefix crlf (form_part (n, v)) = Some ?seg"
    by (simp add: strip_prefix_Some_iff form_part_def)
  moreover have "?seg \<noteq> []" "\<not> starts_with ''--'' ?seg"
    by (simp_all add: disposition_line_def starts_with_def)
  moreover have "find_sub ?seg (crlf @ crlf) = Some (length (disposition_line n))"
    using find_sub_crlf [OF cr_not_in_line [OF assms(1)]] by simp
  moreover have "strip_suffix crlf (v @ crlf) = Some v" by (simp only: strip_suffix_Some_iff)
  ultimately show ?thesis
    using assms by (simp add: multipart_seg_def unwrap_or_def disposition_roundtrip from_utf8_lossy_valid
        Let_def)
qed

lemma multipart_seg_ends [simp]: "multipart_seg [] = None" "multipart_seg (''--'' @ crlf) = None"
  by code_simp+

section \<open>Properties\<close>



text \<open>C28: JSON arguments. Flattening appends one argument for each scalar of the value, in order, with
  its text as the value; where no key is empty its name is the dotted path to the scalar.\<close>

theorem json_args_complete:
  "map snd (flatten_json [] v out) = map snd out @ map snd (json_leaves v) \<and>
   (keys_ok v \<longrightarrow> flatten_json [] v out = out @ map (\<lambda>l. (join ''.'' (fst l), snd l)) (json_leaves v))"
  using flatten_paths(1) [of "[]" v "[]" out] by (simp add: flatten_values)

theorem json_args_complete_witness:
  "flatten_json [] (JObj [(''user'', JObj [(''ids'', JArr [JNum ''7'', JBool True])])]) [] =
     [(''user.ids.0'', ''7''), (''user.ids.1'', ''true'')]"
  using json_args_complete [of "JObj [(''user'', JObj [(''ids'', JArr [JNum ''7'', JBool True])])]" "[]"]
  by (simp add: show_nat_eval)

text \<open>C27: multipart arguments. The body a form submission writes for a list of fields is read back as
  exactly these fields: the separator occurs in no part before its end, the names are ASCII without
  quotes, semicolons and carriage returns, the values are valid UTF-8.\<close>

theorem multipart_fields_read_back:
  assumes "extract_boundary content_type = Some (c # boundary)" "c \<noteq> cr"
    and "\<forall>f\<in>set fs. field_name_ok (fst f) \<and> valid_utf8 (snd f) \<and>
      clean (''--'' @ c # boundary) (form_part f)"
  shows "parse_multipart_args (multipart_body (c # boundary) fs) content_type out = out @ fs"
proof -
  let ?sep = "''--'' @ c # boundary"
  have "\<not> contains_str (''--'' @ crlf) ?sep"
    using assms(2) by (auto simp: contains_str_iff Cons_eq_append_conv append_eq_Cons_conv minus_cr)
  moreover have "clean ?sep []" by (simp add: clean_def)
  ultimately have "split_on (multipart_body (c # boundary) fs) ?sep =
      [] # map form_part fs @ [''--'' @ crlf]"
    using assms(3) cut_join [of ?sep "[] # map form_part fs" "''--'' @ crlf"]
    by (simp add: split_on_cut multipart_body_def)
  moreover have "List.map_filter multipart_seg (map form_part fs) = fs"
    using assms(3) by (induction fs) (auto simp: List.map_filter_simps multipart_seg_part)
  ultimately show ?thesis
    using multipart_seg_ends
    by (simp add: parse_multipart_args_def assms(1) List.map_filter_simps)
qed

theorem multipart_fields_read_back_witness:
  "parse_multipart_args (multipart_body ''Xy'' [(''a'', ''1--X'')]) ''multipart/form-data; boundary=Xy'' [] =
     [(''a'', ''1--X'')]"
proof -
  have "extract_boundary ''multipart/form-data; boundary=Xy'' = Some ''Xy''" "CHR ''X'' \<noteq> cr"
    "field_name_ok ''a''" "valid_utf8 ''1--X''"
    by code_simp+
  moreover have "clean ''--Xy'' (form_part (''a'', ''1--X''))"
    by code_simp
  ultimately show ?thesis
    using multipart_fields_read_back [of "''multipart/form-data; boundary=Xy''" "CHR ''X''" "''y''"
        "[(''a'', ''1--X'')]" "[]"] by simp
qed

end
