(* ===== verification/Rule_Eval.thy ===== *)
theory Rule_Eval
  imports Rule_Args
begin

text \<open>
  Evaluation of compiled rules (\<open>ruleset.rs\<close>) and the rules stage (\<open>stage.rs\<close>): transforms, operators,
  candidates of a field, the request and response loops. A loop returns what the source mutates: the
  limiters inside the rules, the log counter and the counter store. One evaluation reads the clock
  once. Shown: transforms are idempotent where they should be; the compiled shape is kept; the first
  decisive rule wins and otherwise the saturated score decides.
\<close>

section \<open>Transforms and operators\<close>

definition apply_transform :: "transform \<Rightarrow> string \<Rightarrow> string" where
  "apply_transform t s = (case t of
     TLowercase \<Rightarrow> to_ascii_lowercase s
   | TUppercase \<Rightarrow> to_ascii_uppercase s
   | TUrlDecode \<Rightarrow> decode_into s True []
   | TCompressWs \<Rightarrow> join '' '' (split_whitespace s)
   | TRemoveNulls \<Rightarrow> filter (\<lambda>c. c \<noteq> CHR 0x00) s
   | TTrim \<Rightarrow> trim s)"

definition num_cmp :: "(int \<Rightarrow> bool) \<Rightarrow> string \<Rightarrow> bool" where
  "num_cmp p v = (case parse_i64 (trim v) of None \<Rightarrow> False | Some n \<Rightarrow> p n)"

definition eval_op :: "('re, 'y) rule_deps_scheme \<Rightarrow> ('re, 'n) oper \<Rightarrow> string \<Rightarrow> bool" where
  "eval_op R x v = (case x of
     OEq s \<Rightarrow> v = s
   | ONe s \<Rightarrow> v \<noteq> s
   | OContains s \<Rightarrow> contains_str v s
   | OStartsWith s \<Rightarrow> starts_with s v
   | OEndsWith s \<Rightarrow> ends_with s v
   | ORegex r \<Rightarrow> re_is_match R r v
   | OIn xs \<Rightarrow> list_ex (\<lambda>y. y = v) xs
   | OGt n \<Rightarrow> num_cmp (\<lambda>k. k > n) v
   | OLt n \<Rightarrow> num_cmp (\<lambda>k. k < n) v
   | OGe n \<Rightarrow> num_cmp (\<lambda>k. k \<ge> n) v
   | OLe n \<Rightarrow> num_cmp (\<lambda>k. k \<le> n) v
   | ODetectSqli \<Rightarrow> inj_sqli R v
   | ODetectXss \<Rightarrow> inj_xss R v
   | OCidr _ \<Rightarrow> False
   | OTimeBetween a b off \<Rightarrow> (case parse_u16 (trim v) of
       None \<Rightarrow> False
     | Some now_utc \<Rightarrow> in_window now_utc a b off)
   | ODayOfWeek m off \<Rightarrow> (case parse_i64 (trim v) of
       None \<Rightarrow> False
     | Some epoch_min \<Rightarrow> m AND push_bit (weekday epoch_min off) 1 \<noteq> 0))"

definition eval_candidates ::
  "('re, 'y) rule_deps_scheme \<Rightarrow> ('re, 'n) compiled_cond \<Rightarrow> string list \<Rightarrow> bool" where
  "eval_candidates R c candidates =
     list_ex (\<lambda>raw. eval_op R (cc_op c) (fold apply_transform (cc_transforms c) raw)) candidates"

section \<open>Candidates\<close>

definition opt_list :: "'a option \<Rightarrow> 'a list" where
  "opt_list x = (case x of None \<Rightarrow> [] | Some y \<Rightarrow> [y])"

definition show_int :: "int \<Rightarrow> string" where
  "show_int k = (if k < 0 then ''-'' @ show_nat (nat (- k)) else show_nat (nat k))"

definition collect_candidates ::
  "('h, 'n, 'b, 'c, 'z) limit_deps_scheme \<Rightarrow> ('re, 'y) rule_deps_scheme \<Rightarrow> u64 \<Rightarrow> 'c \<Rightarrow>
     'h request_ctx \<Rightarrow> field \<Rightarrow> string list" where
  "collect_candidates D R now counters ctx f = (case f of
     FCounter name \<Rightarrow> [show_nat (unat (counter_get D now counters name (ip (rq_client ctx))))]
   | FMethod \<Rightarrow> [rq_method ctx]
   | FPath \<Rightarrow> [rq_path ctx]
   | FQuery \<Rightarrow> [case rq_query ctx of Some q \<Rightarrow> q | None \<Rightarrow> []]
   | FUri \<Rightarrow> [case rq_query ctx of Some q \<Rightarrow> rq_path ctx @ ''?'' @ q | None \<Rightarrow> rq_path ctx]
   | FHeader name \<Rightarrow> opt_list (header_str D (rq_headers ctx) name)
   | FBody \<Rightarrow> (case rq_body ctx of Buffered b \<Rightarrow> [from_utf8_lossy b] | _ \<Rightarrow> [])
   | FIp \<Rightarrow> [show_ip (ip (rq_client ctx))]
   | FCountry \<Rightarrow> opt_list (map_option country_as_str (geo (rq_client ctx)))
   | FArg name \<Rightarrow> map snd (filter (\<lambda>kv. fst kv = name) (collect_args D (from_json R) ctx))
   | FArgNames \<Rightarrow> map fst (collect_args D (from_json R) ctx)
   | FArgsCount \<Rightarrow> [show_nat (length (collect_args D (from_json R) ctx))]
   | FCookie name \<Rightarrow> map snd (filter (\<lambda>kv. fst kv = name) (collect_cookies D ctx))
   | FCookieNames \<Rightarrow> map fst (collect_cookies D ctx)
   | FArgs \<Rightarrow> map snd (collect_args D (from_json R) ctx)
   | FHeaders \<Rightarrow> List.map_filter (\<lambda>nv. hv_to_str D (snd nv)) (hm_iter D (rq_headers ctx))
   | FHeaderNames \<Rightarrow> hm_keys D (rq_headers ctx)
   | FCookies \<Rightarrow> map snd (collect_cookies D ctx)
   | FTime \<Rightarrow> [show_nat (utc_minutes_now now)]
   | FDay \<Rightarrow> [show_int (utc_epoch_minutes now)]
   | FStatus \<Rightarrow> []
   | FRespHeader _ \<Rightarrow> []
   | FRespBody \<Rightarrow> [])"

definition collect_response_candidates ::
  "('h, 'n, 'b, 'c, 'z) limit_deps_scheme \<Rightarrow> u64 \<Rightarrow> 'c \<Rightarrow> 'h response_ctx \<Rightarrow> field \<Rightarrow> string list" where
  "collect_response_candidates D now counters rctx f = (case f of
     FStatus \<Rightarrow> [show_nat (unat (rs_status rctx))]
   | FRespHeader name \<Rightarrow> opt_list (header_str D (rs_headers rctx) name)
   | FRespBody \<Rightarrow> (case rs_body rctx of Buffered b \<Rightarrow> [from_utf8_lossy b] | _ \<Rightarrow> [])
   | FIp \<Rightarrow> [show_ip (ip (rs_client rctx))]
   | FPath \<Rightarrow> [rs_path rctx]
   | FCounter name \<Rightarrow> [show_nat (unat (counter_get D now counters name (ip (rs_client rctx))))]
   | _ \<Rightarrow> [])"

section \<open>Conditions\<close>

definition matches_request ::
  "('h, 'n, 'b, 'c, 'z) limit_deps_scheme \<Rightarrow> ('re, 'y) rule_deps_scheme \<Rightarrow> u64 \<Rightarrow> 'h request_ctx \<Rightarrow>
     'c \<Rightarrow> ('re, 'n) compiled_cond \<Rightarrow> bool" where
  "matches_request D R now ctx counters c =
     ((case cc_op c of
         OCidr n \<Rightarrow> net_contains D n (ip (rq_client ctx))
       | _ \<Rightarrow> eval_candidates R c (collect_candidates D R now counters ctx (cc_field c)))
      \<noteq> cc_negate c)"

definition matches_response ::
  "('h, 'n, 'b, 'c, 'z) limit_deps_scheme \<Rightarrow> ('re, 'y) rule_deps_scheme \<Rightarrow> u64 \<Rightarrow> 'h response_ctx \<Rightarrow>
     'c \<Rightarrow> ('re, 'n) compiled_cond \<Rightarrow> bool" where
  "matches_response D R now rctx counters c =
     ((case cc_op c of
         OCidr n \<Rightarrow> net_contains D n (ip (rs_client rctx))
       | _ \<Rightarrow> eval_candidates R c (collect_response_candidates D now counters rctx (cc_field c)))
      \<noteq> cc_negate c)"

section \<open>Evaluation\<close>

datatype outcome =
    OutBlock string u16 string
  | OutAllow string
  | OutRateLimited string u32

text \<open>What an evaluation reads and writes besides the request: the log counter, when there is one, and
  the counter store.\<close>

record 'c rule_state =
  log_hits :: "u64 option"
  counters :: 'c

definition log_hit :: "'c rule_state \<Rightarrow> 'c rule_state" where
  "log_hit st = st\<lparr>log_hits := map_option (\<lambda>n. n + 1) (log_hits st)\<rparr>"

definition rule_applies ::
  "('h, 'n, 'b, 'c, 'z) limit_deps_scheme \<Rightarrow> ('re, 'y) rule_deps_scheme \<Rightarrow> u64 \<Rightarrow> 'h request_ctx \<Rightarrow>
     'c rule_state \<Rightarrow> ('re, 'n, 'b) compiled_rule \<Rightarrow> bool" where
  "rule_applies D R now ctx st r = list_all (matches_request D R now ctx (counters st)) (r_conds r)"

text \<open>One turn of the loop: the decision if the rule is decisive, the rule (its limiter may have
  advanced), the score and the state.\<close>

definition rule_step ::
  "('h, 'n, 'b, 'c, 'z) limit_deps_scheme \<Rightarrow> ('re, 'y) rule_deps_scheme \<Rightarrow> u64 \<Rightarrow> 'h request_ctx \<Rightarrow>
     ('re, 'n, 'b) compiled_rule \<Rightarrow> u32 \<Rightarrow> 'c rule_state \<Rightarrow>
     outcome option \<times> ('re, 'n, 'b) compiled_rule \<times> u32 \<times> 'c rule_state" where
  "rule_step D R now ctx r score st =
     (if \<not> rule_applies D R now ctx st r then (None, r, score, st)
      else case r_action r of
        ABlock status msg \<Rightarrow> (Some (OutBlock (r_id r) status msg), r, score, st)
      | AAllow \<Rightarrow> (Some (OutAllow (r_id r)), r, score, st)
      | ALog \<Rightarrow> (None, r, score, log_hit st)
      | ARateLimit l \<Rightarrow> (case limiter_check D now l (ip (rq_client ctx)) of
          (Some retry, l') \<Rightarrow>
            (Some (OutRateLimited (r_id r) retry), r\<lparr>r_action := ARateLimit l'\<rparr>, score, st)
        | (None, l') \<Rightarrow> (None, r\<lparr>r_action := ARateLimit l'\<rparr>, score, st))
      | AScore points \<Rightarrow> (None, r, saturating_add score points, st)
      | AIncr name amount window \<Rightarrow>
          (None, r, score, st\<lparr>counters :=
             snd (counter_incr D now (counters st) name (ip (rq_client ctx)) amount window)\<rparr>))"

fun rules_loop ::
  "('h, 'n, 'b, 'c, 'z) limit_deps_scheme \<Rightarrow> ('re, 'y) rule_deps_scheme \<Rightarrow> u64 \<Rightarrow> 'h request_ctx \<Rightarrow>
     ('re, 'n, 'b) compiled_rule list \<Rightarrow> u32 \<Rightarrow> 'c rule_state \<Rightarrow>
     outcome option \<times> ('re, 'n, 'b) compiled_rule list \<times> u32 \<times> 'c rule_state" where
  "rules_loop D R now ctx [] score st = (None, [], score, st)"
| "rules_loop D R now ctx (r # rs) score st = (case rule_step D R now ctx r score st of
     (Some d, r', score', st') \<Rightarrow> (Some d, r' # rs, score', st')
   | (None, r', score', st') \<Rightarrow> (case rules_loop D R now ctx rs score' st' of
       (d, rs', score'', st'') \<Rightarrow> (d, r' # rs', score'', st'')))"

definition anomaly_reason :: "('re, 'n, 'b) rule_set \<Rightarrow> u32 \<Rightarrow> string" where
  "anomaly_reason rs score =
     anomaly_msg rs @ '' (score '' @ show_nat (unat score) @ '' >= '' @ show_nat (unat (threshold rs)) @ '')''"

definition evaluate_inner ::
  "('h, 'n, 'b, 'c, 'z) limit_deps_scheme \<Rightarrow> ('re, 'y) rule_deps_scheme \<Rightarrow> u64 \<Rightarrow> 'h request_ctx \<Rightarrow>
     ('re, 'n, 'b) rule_set \<Rightarrow> 'c rule_state \<Rightarrow> outcome option \<times> ('re, 'n, 'b) rule_set \<times> 'c rule_state" where
  "evaluate_inner D R now ctx rs st =
     (case rules_loop D R now ctx (req_rules rs) 0 st of
        (d, rules', score, st') \<Rightarrow>
          (case d of
             Some x \<Rightarrow> Some x
           | None \<Rightarrow>
               if threshold rs > 0 \<and> score \<ge> threshold rs then
                 Some (OutBlock ''anomaly.score'' (anomaly_status rs) (anomaly_reason rs score))
               else None,
           rs\<lparr>req_rules := rules'\<rparr>, st'))"

definition evaluate_counting ::
  "('h, 'n, 'b, 'c, 'z) limit_deps_scheme \<Rightarrow> ('re, 'y) rule_deps_scheme \<Rightarrow> u64 \<Rightarrow> 'h request_ctx \<Rightarrow>
     ('re, 'n, 'b) rule_set \<Rightarrow> u64 \<Rightarrow> 'c \<Rightarrow> outcome option \<times> ('re, 'n, 'b) rule_set \<times> 'c rule_state" where
  "evaluate_counting D R now ctx rs log_counter store =
     evaluate_inner D R now ctx rs \<lparr>log_hits = Some log_counter, counters = store\<rparr>"

definition evaluate_with_counters ::
  "('h, 'n, 'b, 'c, 'z) limit_deps_scheme \<Rightarrow> ('re, 'y) rule_deps_scheme \<Rightarrow> u64 \<Rightarrow> 'h request_ctx \<Rightarrow>
     ('re, 'n, 'b) rule_set \<Rightarrow> 'c \<Rightarrow> outcome option \<times> ('re, 'n, 'b) rule_set \<times> 'c rule_state" where
  "evaluate_with_counters D R now ctx rs store =
     evaluate_inner D R now ctx rs \<lparr>log_hits = None, counters = store\<rparr>"

fun response_loop ::
  "('h, 'n, 'b, 'c, 'z) limit_deps_scheme \<Rightarrow> ('re, 'y) rule_deps_scheme \<Rightarrow> u64 \<Rightarrow> 'h response_ctx \<Rightarrow>
     ('re, 'n, 'b) compiled_rule list \<Rightarrow> 'c rule_state \<Rightarrow> outcome option \<times> 'c rule_state" where
  "response_loop D R now rctx [] st = (None, st)"
| "response_loop D R now rctx (r # rs) st =
     (if \<not> list_all (matches_response D R now rctx (counters st)) (r_conds r) then
        response_loop D R now rctx rs st
      else case r_action r of
        ABlock status msg \<Rightarrow> (Some (OutBlock (r_id r) status msg), st)
      | ALog \<Rightarrow> response_loop D R now rctx rs (log_hit st)
      | AIncr name amount window \<Rightarrow>
          response_loop D R now rctx rs (st\<lparr>counters :=
            snd (counter_incr D now (counters st) name (ip (rs_client rctx)) amount window)\<rparr>)
      | _ \<Rightarrow> response_loop D R now rctx rs st)"

definition evaluate_response ::
  "('h, 'n, 'b, 'c, 'z) limit_deps_scheme \<Rightarrow> ('re, 'y) rule_deps_scheme \<Rightarrow> u64 \<Rightarrow> 'h response_ctx \<Rightarrow>
     ('re, 'n, 'b) rule_set \<Rightarrow> 'c rule_state \<Rightarrow> outcome option \<times> 'c rule_state" where
  "evaluate_response D R now rctx rs st = response_loop D R now rctx (resp_rules rs) st"

definition needs_response_body :: "('re, 'n, 'b) rule_set \<Rightarrow> bool" where
  "needs_response_body rs = list_ex (\<lambda>r. list_ex (\<lambda>c. cc_field c = FRespBody) (r_conds r)) (resp_rules rs)"

definition rules_len :: "('re, 'n, 'b) rule_set \<Rightarrow> nat" where
  "rules_len rs = length (req_rules rs) + length (resp_rules rs)"

section \<open>The stage\<close>

record ('re, 'n, 'b, 'c) rules_stage =
  rules :: "('re, 'n, 'b) rule_set"
  stage_log_hits :: u64
  stage_counters :: 'c

definition rules_stage_new ::
  "('h, 'n, 'b, 'c, 'z) limit_deps_scheme \<Rightarrow> ('re, 'n, 'b) rule_set \<Rightarrow> ('re, 'n, 'b, 'c) rules_stage" where
  "rules_stage_new D rs = \<lparr>rules = rs, stage_log_hits = 0, stage_counters = counter_store_new D\<rparr>"

definition the_log :: "'c rule_state \<Rightarrow> u64" where
  "the_log st = (case log_hits st of Some n \<Rightarrow> n | None \<Rightarrow> 0)"

definition rules_inspect_response ::
  "('h, 'n, 'b, 'c, 'z) limit_deps_scheme \<Rightarrow> ('re, 'y) rule_deps_scheme \<Rightarrow> u64 \<Rightarrow> 'h response_ctx \<Rightarrow>
     ('re, 'n, 'b, 'c) rules_stage \<Rightarrow> waf_decision \<times> ('re, 'n, 'b, 'c) rules_stage" where
  "rules_inspect_response D R now rctx s =
     (case evaluate_response D R now rctx (rules s)
             \<lparr>log_hits = Some (stage_log_hits s), counters = stage_counters s\<rparr> of
        (d, st) \<Rightarrow>
          (case d of Some (OutBlock i status why) \<Rightarrow> Block i status why | _ \<Rightarrow> Allow,
           s\<lparr>stage_log_hits := the_log st, stage_counters := counters st\<rparr>))"

definition rules_inspect ::
  "('h, 'n, 'b, 'c, 'z) limit_deps_scheme \<Rightarrow> ('re, 'y) rule_deps_scheme \<Rightarrow> u64 \<Rightarrow>
     ('h, ('re, 'n, 'b, 'c) rules_stage) stage" where
  "rules_inspect D R now ctx s =
     (case evaluate_counting D R now ctx (rules s) (stage_log_hits s) (stage_counters s) of
        (d, rs', st) \<Rightarrow>
          Ret (case d of
                 Some (OutBlock i status why) \<Rightarrow> Break (Block i status why)
               | Some (OutAllow _) \<Rightarrow> Break Allow
               | Some (OutRateLimited _ retry) \<Rightarrow> Break (RateLimited retry)
               | None \<Rightarrow> Continue)
              (ctx, s\<lparr>rules := rs', stage_log_hits := the_log st, stage_counters := counters st\<rparr>))"

lemma rules_inspect_frame: "ctx_frame c (fst (stage_state (rules_inspect D R now c w)))"
  by (simp add: rules_inspect_def split: prod.split)

interpretation rules_st: waf_stage "rules_inspect D R now"
  by unfold_locales (rule rules_inspect_frame)

section \<open>Well-formed rule sets\<close>

definition cond_wf :: "('re, 'n) compiled_cond \<Rightarrow> bool" where
  "cond_wf c \<longleftrightarrow> (cc_field c = FTime \<longleftrightarrow> is_time_op (cc_op c)) \<and> (cc_field c = FDay \<longleftrightarrow> is_day_op (cc_op c)) \<and>
     (case cc_op c of OCidr _ \<Rightarrow> cc_field c = FIp | _ \<Rightarrow> True)"

definition action_wf :: "('h, 'z) http_deps_scheme \<Rightarrow> 'b action \<Rightarrow> bool" where
  "action_wf D a = (case a of
     ABlock st _ \<Rightarrow> status_ok D st
   | AScore n \<Rightarrow> n \<noteq> 0
   | AIncr c _ _ \<Rightarrow> trim c \<noteq> []
   | ARateLimit l \<Rightarrow> quota_rps l \<noteq> 0 \<and> quota_burst l \<noteq> 0
   | _ \<Rightarrow> True)"

definition resp_action :: "'b action \<Rightarrow> bool" where
  "resp_action a = (case a of ABlock _ _ \<Rightarrow> True | ALog \<Rightarrow> True | AIncr _ _ _ \<Rightarrow> True | _ \<Rightarrow> False)"

definition req_rule_wf :: "('h, 'z) http_deps_scheme \<Rightarrow> ('re, 'n, 'b) compiled_rule \<Rightarrow> bool" where
  "req_rule_wf D r \<longleftrightarrow> r_conds r \<noteq> [] \<and> action_wf D (r_action r) \<and>
     list_all (\<lambda>c. cond_wf c \<and> \<not> resp_field (cc_field c)) (r_conds r)"

definition resp_rule_wf :: "('h, 'z) http_deps_scheme \<Rightarrow> ('re, 'n, 'b) compiled_rule \<Rightarrow> bool" where
  "resp_rule_wf D r \<longleftrightarrow> r_conds r \<noteq> [] \<and> action_wf D (r_action r) \<and> resp_action (r_action r) \<and>
     list_all (\<lambda>c. cond_wf c \<and> resp_phase_field (cc_field c)) (r_conds r)"

definition rule_set_wf :: "('h, 'z) http_deps_scheme \<Rightarrow> ('re, 'n, 'b) rule_set \<Rightarrow> bool" where
  "rule_set_wf D rs \<longleftrightarrow> list_all (req_rule_wf D) (req_rules rs) \<and> list_all (resp_rule_wf D) (resp_rules rs) \<and>
     status_ok D (anomaly_status rs)"

lemma list_all2_imp_list_all: "list_all2 P xs ys \<Longrightarrow> (\<And>x y. P x y \<Longrightarrow> Q y) \<Longrightarrow> list_all Q ys"
  by (induction rule: list_all2_induct) auto

lemma compile_op_Inr:
  assumes "compile_op D R c f tz = Inr x"
  shows "(is_time_op x \<longrightarrow> f = FTime) \<and> (is_day_op x \<longrightarrow> f = FDay) \<and>
    (case x of OCidr _ \<Rightarrow> f = FIp | _ \<Rightarrow> True)"
  using assms
  by (simp add: compile_op_def Let_def num_op_def tz_op_def is_time_op_def is_day_op_def
      split: if_splits option.splits sum.splits prod.splits)
     (auto)

lemma compile_cond_wf: "compile_cond D R tz c = Inr cc \<Longrightarrow> cond_wf cc"
  using compile_op_Inr [of D R c "cc_field cc" tz "cc_op cc"]
  by (auto simp: compile_cond_def cond_wf_def split: sum.splits if_splits)

lemma phase_check_None:
  "phase_check ph cs = None \<longleftrightarrow>
     list_all (\<lambda>c. case ph of PhRequest \<Rightarrow> \<not> resp_field (cc_field c) | PhResponse \<Rightarrow> resp_phase_field (cc_field c)) cs"
  by (induction ph cs rule: phase_check.induct) (auto split: phase_kind.splits)

lemma compile_action_wf: "compile_action D d = Inr a \<Longrightarrow> action_wf D a"
  by (auto simp: compile_action_def action_wf_def limiter_new_def Let_def split: action_kind.splits if_splits)

lemma compile_action_resp:
  "compile_action D d = Inr a \<Longrightarrow> rd_action d \<in> {AkBlock, AkLog, AkIncr} \<Longrightarrow> resp_action a"
  by (auto simp: compile_action_def resp_action_def split: if_splits)

lemma compile_rule_wf:
  assumes "compile_rule D R tz d = Inr r"
  shows "r_id r = rd_id d \<and>
    (case rd_phase d of PhRequest \<Rightarrow> req_rule_wf D r | PhResponse \<Rightarrow> resp_rule_wf D r)"
proof -
  obtain conds a where c: "collect_results (compile_cond D R tz) (rd_when d) = Inr conds" "conds \<noteq> []"
    and p: "phase_check (rd_phase d) conds = None"
    and ph: "rd_phase d = PhResponse \<longrightarrow> rd_action d \<in> {AkBlock, AkLog, AkIncr}"
    and a: "compile_action D d = Inr a" and r: "r = \<lparr>r_id = rd_id d, r_action = a, r_conds = conds\<rparr>"
    using assms by (auto simp: compile_rule_def split: sum.splits if_splits option.splits)
  have "list_all cond_wf conds"
    using list_all2_imp_list_all [OF collect_results_Inr [OF c(1)]] compile_cond_wf by blast
  then show ?thesis
    using c(2) p ph compile_action_wf [OF a] compile_action_resp [OF a]
    by (auto simp: r phase_check_None req_rule_wf_def resp_rule_wf_def list_all_iff split: phase_kind.splits)
qed

lemma compile_rules_wf:
  "compile_rules D R tz defs rq rp = Inr (rq', rp') \<Longrightarrow>
     list_all (req_rule_wf D) rq \<Longrightarrow> list_all (resp_rule_wf D) rp \<Longrightarrow>
     list_all (req_rule_wf D) rq' \<and> list_all (resp_rule_wf D) rp' \<and>
     map r_id rq' = map r_id rq @ map rd_id (filter (\<lambda>d. rd_phase d = PhRequest) defs) \<and>
     map r_id rp' = map r_id rp @ map rd_id (filter (\<lambda>d. rd_phase d = PhResponse) defs)"
proof (induction D R tz defs rq rp rule: compile_rules.induct)
  case (2 D R tz d ds rq rp)
  then obtain r where r: "compile_rule D R tz d = Inr r" by (auto split: sum.splits)
  with 2 compile_rule_wf [OF r] show ?case by (cases "rd_phase d") auto
qed simp

lemma rule_step_wf:
  "rule_step D R now ctx r score st = (d, r', score', st') \<Longrightarrow>
     req_rule_wf D r' = req_rule_wf D r \<and> r_id r' = r_id r \<and> r_conds r' = r_conds r"
  by (auto simp: rule_step_def req_rule_wf_def action_wf_def limiter_check_def Let_def
      split: if_splits action.splits prod.splits option.splits)

lemma rules_loop_wf:
  "rules_loop D R now ctx rs score st = (d, rs', score', st') \<Longrightarrow>
     list_all (req_rule_wf D) rs' = list_all (req_rule_wf D) rs \<and>
     map r_id rs' = map r_id rs \<and> map r_conds rs' = map r_conds rs"
proof (induction D R now ctx rs score st arbitrary: d rs' score' st' rule: rules_loop.induct)
  case (2 D R now ctx r rs score st)
  obtain d1 r1 s1 st1 where step: "rule_step D R now ctx r score st = (d1, r1, s1, st1)"
    using prod_cases4 by blast
  from rule_step_wf [OF step] 2 show ?case
    by (auto simp: step split: option.splits prod.splits)
qed simp

lemma compile_with_tz_wf:
  assumes "compile_with_tz D R defs sc tz = Inr rs"
  shows "rule_set_wf D rs"
    and "map r_id (req_rules rs) = map rd_id (filter (\<lambda>d. rd_phase d = PhRequest) defs)"
    and "map r_id (resp_rules rs) = map rd_id (filter (\<lambda>d. rd_phase d = PhResponse) defs)"
proof -
  obtain rq rp where c: "compile_rules D R tz defs [] [] = Inr (rq, rp)"
    and s: "status_ok D (sc_status sc)"
    and rs: "rs = rules_empty\<lparr>req_rules := rq, resp_rules := rp, threshold := sc_threshold sc,
      anomaly_status := sc_status sc, anomaly_msg := sc_msg sc\<rparr>"
    using assms
    by (auto simp: compile_with_tz_def apply_scoring_def rules_empty_def split: sum.splits if_splits)
  from compile_rules_wf [OF c] s
  show "rule_set_wf D rs" "map r_id (req_rules rs) = map rd_id (filter (\<lambda>d. rd_phase d = PhRequest) defs)"
    "map r_id (resp_rules rs) = map rd_id (filter (\<lambda>d. rd_phase d = PhResponse) defs)"
    by (simp_all add: rule_set_wf_def rs rules_empty_def)
qed

lemma rules_load_wf: "rules_load D R rd tm path sc tz = Inr rs \<Longrightarrow> rule_set_wf D rs"
  by (auto simp: rules_load_def apply_scoring_def rule_set_wf_def rules_empty_def
      dest: compile_with_tz_wf(1) split: if_splits sum.splits)

lemma evaluate_inner_wf:
  "rule_set_wf D rs \<Longrightarrow> rule_set_wf D (fst (snd (evaluate_inner D R now ctx rs st)))"
  using rules_loop_wf [of D R now ctx "req_rules rs" 0 st]
  by (auto simp: evaluate_inner_def rule_set_wf_def split: prod.split)

section \<open>Idempotent transforms\<close>

locale idempotent =
  fixes f :: "'s \<Rightarrow> 's"
  assumes idem: "f (f s) = f s"
begin

lemma iterate: "(f ^^ Suc n) s = f s"
  by (induction n) (simp_all add: idem)

lemma fixed_iff: "f s = s \<longleftrightarrow> (\<exists>t. s = f t)"
  using idem by metis

end

lemma compress_ws_idem:
  "join '' '' (split_whitespace (join '' '' (split_whitespace s))) = join '' '' (split_whitespace s)"
  using split_whitespace_tokens [of _ s] by (simp add: split_whitespace_join)

interpretation lowercase: idempotent "apply_transform TLowercase"
  by unfold_locales (simp add: apply_transform_def)

interpretation uppercase: idempotent "apply_transform TUppercase"
  by unfold_locales (simp add: apply_transform_def)

interpretation compress_ws: idempotent "apply_transform TCompressWs"
  by unfold_locales (simp add: apply_transform_def compress_ws_idem)

interpretation remove_nulls: idempotent "apply_transform TRemoveNulls"
  by unfold_locales (simp add: apply_transform_def)

interpretation trim_ends: idempotent "apply_transform TTrim"
  by unfold_locales (simp add: apply_transform_def)

section \<open>Sets without limiters and counters\<close>

definition stateless :: "('re, 'n, 'b) compiled_rule \<Rightarrow> bool" where
  "stateless r = (case r_action r of ARateLimit _ \<Rightarrow> False | AIncr _ _ _ \<Rightarrow> False | _ \<Rightarrow> True)"

definition decision_of :: "('re, 'n, 'b) compiled_rule \<Rightarrow> outcome option" where
  "decision_of r = (case r_action r of
     ABlock st msg \<Rightarrow> Some (OutBlock (r_id r) st msg)
   | AAllow \<Rightarrow> Some (OutAllow (r_id r))
   | _ \<Rightarrow> None)"

definition points :: "('re, 'n, 'b) compiled_rule \<Rightarrow> nat" where
  "points r = (case r_action r of AScore n \<Rightarrow> unat n | _ \<Rightarrow> 0)"

lemma log_hit_counters [simp]: "counters (log_hit st) = counters st"
  by (simp add: log_hit_def)

lemma rule_applies_counters:
  "counters st = counters st' \<Longrightarrow> rule_applies D R now ctx st = rule_applies D R now ctx st'"
  by (simp add: rule_applies_def fun_eq_iff)

lemma rule_step_stateless:
  assumes "stateless r" "rule_step D R now ctx r score st = (d, r', score', st')"
  shows "d = (if rule_applies D R now ctx st r then decision_of r else None) \<and> r' = r \<and>
    counters st' = counters st \<and>
    unat score' = min (unat score + (if rule_applies D R now ctx st r then points r else 0)) (2 ^ 32 - 1)"
proof -
  have "unat score \<le> 2 ^ 32 - 1" using unsigned_less [of score, where ?'a = nat] by simp
  with assms show ?thesis
    by (auto simp: rule_step_def stateless_def decision_of_def points_def unat_saturating_add
        split: if_splits action.splits)
qed

lemma decision_of_find:
  "find (\<lambda>r. P r \<and> decision_of r \<noteq> None) rs = Some r \<Longrightarrow> decision_of r \<noteq> None"
  by (auto simp: find_Some_iff)

lemma rules_loop_stateless:
  "list_all stateless rs \<Longrightarrow> rules_loop D R now ctx rs score st = (d, rs', score', st') \<Longrightarrow>
     d = (case find (\<lambda>r. rule_applies D R now ctx st r \<and> decision_of r \<noteq> None) rs of
            Some r \<Rightarrow> decision_of r | None \<Rightarrow> None) \<and>
     rs' = rs \<and> counters st' = counters st \<and>
     (d = None \<longrightarrow> unat score' =
        min (unat score + sum_list (map points (filter (rule_applies D R now ctx st) rs))) (2 ^ 32 - 1))"
proof (induction D R now ctx rs score st arbitrary: d rs' score' st' rule: rules_loop.induct)
  case (1 D R now ctx score st)
  then show ?case using unsigned_less [of score, where ?'a = nat] by simp
next
  case (2 D R now ctx r rs score st)
  obtain d1 r1 s1 st1 where step: "rule_step D R now ctx r score st = (d1, r1, s1, st1)"
    using prod_cases4 by blast
  have r: "stateless r" "list_all stateless rs" using 2(2) by simp_all
  note one = rule_step_stateless [OF r(1) step]
  show ?case
  proof (cases d1)
    case (Some x)
    with one 2(3) show ?thesis by (auto simp: step split: if_splits)
  next
    case None
    obtain d2 rs2 s2 st2 where rest: "rules_loop D R now ctx rs s1 st1 = (d2, rs2, s2, st2)"
      using prod_cases4 by blast
    have app: "rule_applies D R now ctx st1 = rule_applies D R now ctx st"
      using one by (intro rule_applies_counters) simp
    from 2(1) [OF step [symmetric] None refl refl r(2) rest] one 2(3) None show ?thesis
      by (auto simp: step rest app min_def split: if_splits)
  qed
qed

section \<open>Properties\<close>

text \<open>C19: what compilation accepts. Every rule has a condition; time and day operators stand on their
  fields and these fields on no other operator, \<open>cidr\<close> on the address; a request rule reads no response
  field, a response rule only what is known then and only blocks, logs or counts; answers have valid
  statuses, scores and quotas are not zero. The rules keep their order. Evaluating requests keeps all
  of this.\<close>

theorem compiled_rules_wf:
  assumes "compile_with_tz D R defs sc tz = Inr rs"
  shows "rule_set_wf D rs \<and>
    map r_id (req_rules rs) = map rd_id (filter (\<lambda>d. rd_phase d = PhRequest) defs) \<and>
    map r_id (resp_rules rs) = map rd_id (filter (\<lambda>d. rd_phase d = PhResponse) defs) \<and>
    (\<forall>now ctx st. rule_set_wf D (fst (snd (evaluate_inner D R now ctx rs st))))"
  using compile_with_tz_wf [OF assms] evaluate_inner_wf by blast

definition rinst :: "string rule_deps" where
  "rinst = \<lparr>re_new = Inr, re_is_match = (\<lambda>p s. contains_str s p), libinjection = False,
     inj_sqli = (\<lambda>_. False), inj_xss = (\<lambda>_. False), from_json = (\<lambda>_. None)\<rparr>"

definition cond_eq :: "string \<Rightarrow> string \<Rightarrow> cond_def" where
  "cond_eq f v = \<lparr>cd_field = f, cd_name = [], cd_op = ''eq'', cd_value = v, cd_values = [],
     cd_negate = False, cd_transform = [''lowercase''], cd_tz = []\<rparr>"

definition block_def :: "string \<Rightarrow> cond_def \<Rightarrow> rule_def" where
  "block_def i c = \<lparr>rd_id = i, rd_phase = PhRequest, rd_action = AkBlock, rd_status = 403, rd_msg = [],
     rd_rps = 0, rd_burst = 0, rd_ttl_secs = default_rl_ttl, rd_score = 0, rd_counter = [],
     rd_incr = default_incr, rd_when = [c]\<rparr>"

definition admin_rules :: "(string, cidr, bucket_table) rule_set" where
  "admin_rules = rules_empty\<lparr>req_rules := [\<lparr>r_id = ''no-admin'', r_action = ABlock 403 ''no-admin'',
     r_conds = [\<lparr>cc_field = FPath, cc_op = OEq ''/admin'', cc_negate = False, cc_transforms = [TLowercase]\<rparr>]\<rparr>]\<rparr>"

lemma admin_rules_compiled:
  "compile_with_tz inst rinst [block_def ''no-admin'' (cond_eq ''path'' ''/admin'')] scoring_config_default 0 =
     Inr admin_rules"
  by (simp add: compile_with_tz_def compile_rule_def compile_cond_def compile_field_def plain_fields_def
      compile_op_def compile_transform_def resp_field_def compile_action_def apply_scoring_def
      block_def_def cond_eq_def admin_rules_def rules_empty_def scoring_config_default_def
      default_anomaly_status_def default_anomaly_msg_def)

theorem compiled_rules_wf_witness:
  "rule_set_wf inst admin_rules \<and> map r_id (req_rules admin_rules) = [''no-admin'']"
  using compiled_rules_wf [OF admin_rules_compiled] by (simp add: block_def_def)

text \<open>C10: what a rule set without limiters and counters decides. The first rule that blocks or allows and
  whose conditions all hold decides, whatever the scores are; without one, the points of the rules
  that hold add up, saturating at the largest 32-bit number, and a total that reaches a non-zero
  threshold blocks. Rules and counters stay as they are.\<close>

theorem stateless_rules_decide:
  assumes "list_all stateless (req_rules rs)"
  shows "\<exists>st'. evaluate_inner D R now ctx rs st =
     (case find (\<lambda>r. rule_applies D R now ctx st r \<and> decision_of r \<noteq> None) (req_rules rs) of
        Some r \<Rightarrow> decision_of r
      | None \<Rightarrow>
          let total = min (sum_list (map points (filter (rule_applies D R now ctx st) (req_rules rs)))) (2 ^ 32 - 1)
          in if 0 < unat (threshold rs) \<and> unat (threshold rs) \<le> total then
               Some (OutBlock ''anomaly.score'' (anomaly_status rs) (anomaly_reason rs (of_nat total)))
             else None,
      rs, st') \<and> counters st' = counters st"
proof -
  obtain d rs' s st' where l: "rules_loop D R now ctx (req_rules rs) 0 st = (d, rs', s, st')"
    using prod_cases4 by blast
  note loop = rules_loop_stateless [OF assms l]
  show ?thesis
  proof (cases "find (\<lambda>r. rule_applies D R now ctx st r \<and> decision_of r \<noteq> None) (req_rules rs)")
    case (Some r)
    obtain x where "decision_of r = Some x" using decision_of_find [OF Some] by auto
    with Some loop show ?thesis by (simp add: evaluate_inner_def l)
  next
    case None
    let ?total = "min (sum_list (map points (filter (rule_applies D R now ctx st) (req_rules rs)))) (2 ^ 32 - 1)"
    have s: "unat s = ?total" using loop None by simp
    have "of_nat ?total = s" unfolding s [symmetric] by simp
    moreover have "threshold rs > 0 \<and> s \<ge> threshold rs \<longleftrightarrow>
        0 < unat (threshold rs) \<and> unat (threshold rs) \<le> ?total"
      using s by (simp add: word_less_nat_alt word_le_nat_alt)
    ultimately show ?thesis using loop None by (simp add: evaluate_inner_def l Let_def)
  qed
qed

theorem stateless_rules_decide_witness:
  "fst (evaluate_inner inst rinst 0 (get_request (V4 7) ''/ADMIN'' None) admin_rules
     \<lparr>log_hits = None, counters = (\<lambda>_. None)\<rparr>) = Some (OutBlock ''no-admin'' 403 ''no-admin'')"
proof -
  have s: "list_all stateless (req_rules admin_rules)"
    by (simp add: admin_rules_def stateless_def)
  have "to_ascii_lowercase ''/ADMIN'' = ''/admin''" by code_simp
  then have "rule_applies inst rinst 0 (get_request (V4 7) ''/ADMIN'' None)
      \<lparr>log_hits = None, counters = (\<lambda>_. None)\<rparr> (hd (req_rules admin_rules))"
    by (simp add: rule_applies_def admin_rules_def matches_request_def eval_candidates_def
        collect_candidates_def eval_op_def apply_transform_def get_request_def)
  then show ?thesis
    using stateless_rules_decide [OF s, of inst rinst 0 "get_request (V4 7) ''/ADMIN'' None"
        "\<lparr>log_hits = None, counters = (\<lambda>_. None)\<rparr>"]
    by (auto simp: admin_rules_def decision_of_def)
qed

section \<open>Counting requests\<close>

text \<open>Requests with the same context at a sequence of times, each evaluated in the state the one before
  left.\<close>

fun evaluate_many ::
  "('h, 'n, 'b, 'c, 'z) limit_deps_scheme \<Rightarrow> ('re, 'y) rule_deps_scheme \<Rightarrow> 'h request_ctx \<Rightarrow>
     ('re, 'n, 'b) rule_set \<Rightarrow> 'c rule_state \<Rightarrow> u64 list \<Rightarrow> outcome option list" where
  "evaluate_many D R ctx rs st [] = []"
| "evaluate_many D R ctx rs st (t # ts) = (case evaluate_inner D R t ctx rs st of
     (d, rs', st') \<Rightarrow> d # evaluate_many D R ctx rs' st' ts)"

lemma counter_incr_live:
  assumes "counter_laws D" "now \<le> t" "t - now < max window 1"
  shows "counter_get D t (snd (counter_incr D now c name a amount window)) name a =
    saturating_add (counter_get D now c name a) amount"
  using assms by (simp add: counter_incr_def counter_get_def counter_laws_def Let_def)

lemma max_1_pos: "0 < max w (1 :: u64)"
  by (simp add: word_less_nat_alt unat_max)

lemma num_cmp_show: "n < 2 ^ 63 \<Longrightarrow> num_cmp p (show_nat n) = p (int n)"
  by (simp add: num_cmp_def parse_signed_show_nat)

definition lockout_cond :: "string \<Rightarrow> int \<Rightarrow> ('re, 'n) compiled_cond" where
  "lockout_cond name n = \<lparr>cc_field = FCounter name, cc_op = OGe n, cc_negate = False, cc_transforms = []\<rparr>"

lemma lockout_step:
  assumes laws: "counter_laws D"
    and rs: "req_rules rs = [ri, rb]" "threshold rs = 0"
    and ri: "r_action ri = AIncr name 1 w" "rule_applies D R t ctx st ri"
    and rb: "r_action rb = ABlock status msg" "r_conds rb = [lockout_cond name n]"
    and k: "unat (counter_get D t (counters st) name (ip (rq_client ctx))) = k" "k + 1 < 2 ^ 63"
  shows "\<exists>st'. evaluate_inner D R t ctx rs st =
      (if n \<le> int (k + 1) then Some (OutBlock (r_id rb) status msg) else None, rs, st') \<and>
    counters st' = snd (counter_incr D t (counters st) name (ip (rq_client ctx)) 1 w)"
proof -
  let ?st = "st\<lparr>counters := snd (counter_incr D t (counters st) name (ip (rq_client ctx)) 1 w)\<rparr>"
  have step: "rule_step D R t ctx ri 0 st = (None, ri, 0, ?st)"
    using ri by (simp add: rule_step_def)
  have "counter_get D t (counters ?st) name (ip (rq_client ctx)) =
      saturating_add (counter_get D t (counters st) name (ip (rq_client ctx))) 1"
    using laws counter_incr_live [of D t t w "counters st" name "ip (rq_client ctx)" 1] max_1_pos [of w]
    by simp
  then have "unat (counter_get D t (counters ?st) name (ip (rq_client ctx))) = k + 1"
    using k by (simp add: unat_saturating_add)
  then have "rule_applies D R t ctx ?st rb \<longleftrightarrow> n \<le> int (k + 1)"
    using k(2) by (simp add: rule_applies_def rb lockout_cond_def matches_request_def eval_candidates_def
        collect_candidates_def eval_op_def num_cmp_show)
  then have "rule_step D R t ctx rb 0 ?st =
      (if n \<le> int (k + 1) then Some (OutBlock (r_id rb) status msg) else None, rb, 0, ?st)"
    by (simp add: rule_step_def rb(1))
  with step rs show ?thesis
    by (auto simp: evaluate_inner_def)
qed

lemma lockout_many:
  assumes "counter_laws D"
    and "req_rules rs = [ri, rb]" "threshold rs = 0"
    and "r_action ri = AIncr name 1 w" "\<And>t st. rule_applies D R t ctx st ri"
    and "r_action rb = ABlock status msg" "r_conds rb = [lockout_cond name n]"
  shows "successively (\<lambda>a b. a \<le> b \<and> b - a < max w 1) ts \<Longrightarrow> ts \<noteq> [] \<Longrightarrow>
     unat (counter_get D (hd ts) (counters st) name (ip (rq_client ctx))) = k \<Longrightarrow>
     k + length ts < 2 ^ 63 \<Longrightarrow>
     evaluate_many D R ctx rs st ts =
       map (\<lambda>i. if n \<le> int (k + Suc i) then Some (OutBlock (r_id rb) status msg) else None) [0..<length ts]"
proof (induction ts arbitrary: st k)
  case (Cons t ts)
  obtain st' where e: "evaluate_inner D R t ctx rs st =
      (if n \<le> int (k + 1) then Some (OutBlock (r_id rb) status msg) else None, rs, st')"
    and c: "counters st' = snd (counter_incr D t (counters st) name (ip (rq_client ctx)) 1 w)"
    using lockout_step [OF assms(1-4) assms(5) assms(6,7), of t st k] Cons.prems(3,4) by auto
  show ?case
  proof (cases "ts = []")
    case True
    then show ?thesis by (simp add: e)
  next
    case False
    then have "t \<le> hd ts" "hd ts - t < max w 1" "successively (\<lambda>a b. a \<le> b \<and> b - a < max w 1) ts"
      using Cons.prems(1) by (cases ts; simp)+
    moreover from this have "unat (counter_get D (hd ts) (counters st') name (ip (rq_client ctx))) = k + 1"
      using counter_incr_live [OF assms(1), of t "hd ts" w] Cons.prems(3,4)
      by (simp add: c unat_saturating_add)
    ultimately have "evaluate_many D R ctx rs st' ts =
        map (\<lambda>i. if n \<le> int (k + 1 + Suc i) then Some (OutBlock (r_id rb) status msg) else None) [0..<length ts]"
      using Cons.IH [of st' "k + 1"] False Cons.prems(4) by simp
    then show ?thesis by (simp add: e map_upt_Suc del: upt_Suc)
  qed
qed simp

text \<open>C11: a lock-out rule pair. A rule that counts every matching request of a client and, behind it, a
  rule that blocks once the counter reaches a limit: of a run of requests none of which comes later
  than the window after the one before, exactly those from the limit on are blocked, counting from the
  first.\<close>

theorem lockout_after_limit:
  assumes "counter_laws D"
    and "req_rules rs = [ri, rb]" "threshold rs = 0"
    and "r_action ri = AIncr name 1 w" "\<forall>t st. rule_applies D R t ctx st ri"
    and "r_action rb = ABlock status msg" "r_conds rb = [lockout_cond name n]"
    and "successively (\<lambda>a b. a \<le> b \<and> b - a < max w 1) ts" "length ts < 2 ^ 63" "ts \<noteq> []"
    and "counter_get D (hd ts) (counters st) name (ip (rq_client ctx)) = 0"
  shows "evaluate_many D R ctx rs st ts =
    map (\<lambda>i. if n \<le> int i then Some (OutBlock (r_id rb) status msg) else None) [1..<length ts + 1]"
  using lockout_many [OF assms(1-4) _ assms(6,7,8,10), where st = st and k = 0 and R = R and ctx = ctx] assms(5,9,11)
  by (simp add: map_Suc_upt [symmetric] comp_def del: upt_Suc)

definition login_rules :: "(string, cidr, bucket_table) rule_set" where
  "login_rules = rules_empty\<lparr>req_rules :=
     [\<lparr>r_id = ''count'', r_action = AIncr ''login'' 1 60,
       r_conds = [\<lparr>cc_field = FPath, cc_op = OEq ''/login'', cc_negate = False, cc_transforms = []\<rparr>]\<rparr>,
      \<lparr>r_id = ''lock'', r_action = ABlock 403 ''locked'', r_conds = [lockout_cond ''login'' 3]\<rparr>]\<rparr>"

theorem lockout_after_limit_witness:
  "evaluate_many inst rinst (get_request (V4 7) ''/login'' None) login_rules
     \<lparr>log_hits = None, counters = (\<lambda>_. None)\<rparr> [10, 20, 70, 75] =
   [None, None, Some (OutBlock ''lock'' 403 ''locked''), Some (OutBlock ''lock'' 403 ''locked'')]"
proof -
  let ?ri = "req_rules login_rules ! 0" and ?rb = "req_rules login_rules ! 1"
  let ?ctx = "get_request (V4 7) ''/login'' None"
  have "req_rules login_rules = [?ri, ?rb]" "threshold login_rules = 0" "r_action ?ri = AIncr ''login'' 1 60"
    "r_action ?rb = ABlock 403 ''locked''" "r_conds ?rb = [lockout_cond ''login'' 3]" "r_id ?rb = ''lock''"
    by (simp_all add: login_rules_def rules_empty_def)
  moreover have "\<forall>t st. rule_applies inst rinst t ?ctx st ?ri"
    by (simp add: login_rules_def rule_applies_def matches_request_def eval_candidates_def
        collect_candidates_def eval_op_def get_request_def)
  moreover have "successively (\<lambda>a b. a \<le> b \<and> b - a < max 60 1) [10, 20, 70, 75 :: u64]"
    by (simp add: max_def word_le_nat_alt word_less_nat_alt)
  moreover have "counter_get inst (hd [10, 20, 70, 75]) (\<lambda>_. None) ''login'' (ip (rq_client ?ctx)) = 0"
    by (simp add: counter_get_def c_get_def)
  ultimately have "evaluate_many inst rinst ?ctx login_rules
     \<lparr>log_hits = None, counters = (\<lambda>_. None)\<rparr> [10, 20, 70, 75] =
     map (\<lambda>i. if 3 \<le> int i then Some (OutBlock ''lock'' 403 ''locked'') else None) [1..<length [10, 20, 70, 75 :: u64] + 1]"
    using lockout_after_limit [OF inst_counter_laws, of login_rules ?ri ?rb "''login''" 60 rinst ?ctx 403 "''locked''" 3
        "[10, 20, 70, 75]" "\<lparr>log_hits = None, counters = (\<lambda>_. None)\<rparr>"] by simp
  then show ?thesis by (simp add: upt_rec)
qed

text \<open>C24: rule transforms. Every transform but \<open>url_decode\<close> changes nothing when it is applied again, and
  decoding followed by case folding gives the same text for every percent-encoding and letter case of
  an ASCII value.\<close>

theorem transforms_canonical:
  "(t \<noteq> TUrlDecode \<longrightarrow> (apply_transform t ^^ Suc n) s = apply_transform t s) \<and>
   (pct_variant True e txt \<and> list_all is_ascii txt \<longrightarrow>
      fold apply_transform [TUrlDecode, TLowercase] e = to_ascii_lowercase txt)"
proof (intro conjI impI)
  assume "t \<noteq> TUrlDecode"
  then show "(apply_transform t ^^ Suc n) s = apply_transform t s"
    by (cases t; simp only: lowercase.iterate uppercase.iterate compress_ws.iterate
        remove_nulls.iterate trim_ends.iterate)
next
  assume "pct_variant True e txt \<and> list_all is_ascii txt"
  then show "fold apply_transform [TUrlDecode, TLowercase] e = to_ascii_lowercase txt"
    using decode_into_variant [of True e "txt"] by (simp add: apply_transform_def)
qed

theorem transforms_canonical_witness:
  "fold apply_transform [TUrlDecode, TLowercase] ''%3CScRiPt%3e+1'' = ''<script> 1'' \<and>
   apply_transform TTrim (apply_transform TTrim '' a '') = apply_transform TTrim '' a ''"
proof -
  have "list_all is_ascii ''<ScRiPt> 1''" by (simp add: is_ascii_def bv_def)
  moreover have "to_ascii_lowercase ''<ScRiPt> 1'' = ''<script> 1''" by code_simp
  ultimately show ?thesis
    using transforms_canonical [of TTrim 1 "'' a ''" "''%3CScRiPt%3e+1''" "''<ScRiPt> 1''"] variant_example
    by simp
qed

section \<open>Response rules\<close>

lemma matches_response_body:
  "cc_field c \<noteq> FRespBody \<Longrightarrow>
     matches_response D R now (rctx\<lparr>rs_body := b\<rparr>) cs c = matches_response D R now rctx cs c"
  by (cases "cc_field c")
     (simp_all add: matches_response_def collect_response_candidates_def split: oper.split)

lemma response_loop_body:
  "list_all (\<lambda>r. list_all (\<lambda>c. cc_field c \<noteq> FRespBody) (r_conds r)) rs \<Longrightarrow>
     response_loop D R now (rctx\<lparr>rs_body := b\<rparr>) rs st = response_loop D R now rctx rs st"
proof (induction D R now rctx rs st rule: response_loop.induct)
  case (2 D R now rctx r rs st)
  have "list_all (matches_response D R now (rctx\<lparr>rs_body := b\<rparr>) (counters st)) (r_conds r) =
      list_all (matches_response D R now rctx (counters st)) (r_conds r)"
    using "2.prems" by (auto simp: list_all_iff matches_response_body)
  with 2 show ?case by (auto split: action.split)
qed simp

lemma response_loop_blocks:
  "fst (response_loop D R now rctx rs st) = Some d \<Longrightarrow>
     \<exists>r\<in>set rs. \<exists>status msg. r_action r = ABlock status msg \<and> d = OutBlock (r_id r) status msg"
  by (induction D R now rctx rs st rule: response_loop.induct) (auto split: if_splits action.splits)

text \<open>C25: streaming a response unread is sound. Where \<open>needs_response_body\<close> says no, the verdict of the
  response rules and the state they leave do not depend on the body; and whatever the rules, what they
  decide is the block of one of them, with its identifier, status and message.\<close>

theorem response_body_only_when_needed:
  "(\<not> needs_response_body rs \<longrightarrow>
      evaluate_response D R now (rctx\<lparr>rs_body := b\<rparr>) rs st = evaluate_response D R now rctx rs st) \<and>
   (\<forall>d. fst (evaluate_response D R now rctx rs st) = Some d \<longrightarrow>
      (\<exists>r\<in>set (resp_rules rs). \<exists>status msg.
         r_action r = ABlock status msg \<and> d = OutBlock (r_id r) status msg))"
  using response_loop_blocks [of D R now rctx "resp_rules rs" st]
  by (auto simp: evaluate_response_def needs_response_body_def list_ex_iff list_all_iff
      intro!: response_loop_body)

theorem response_body_only_when_needed_witness:
  "evaluate_response inst rinst 0 \<lparr>rs_status = 200, rs_headers = [], rs_client = \<lparr>ip = V4 7, geo = None\<rparr>,
       rs_path = ''/'', rs_body = Buffered ''secret''\<rparr> admin_rules \<lparr>log_hits = None, counters = (\<lambda>_. None)\<rparr> =
   evaluate_response inst rinst 0 \<lparr>rs_status = 200, rs_headers = [], rs_client = \<lparr>ip = V4 7, geo = None\<rparr>,
       rs_path = ''/'', rs_body = NotBuffered\<rparr> admin_rules \<lparr>log_hits = None, counters = (\<lambda>_. None)\<rparr>"
proof -
  have "\<not> needs_response_body admin_rules"
    by (simp add: needs_response_body_def admin_rules_def rules_empty_def)
  then show ?thesis
    using response_body_only_when_needed [where rs = admin_rules and D = inst and R = rinst and now = 0
        and st = "\<lparr>log_hits = None, counters = (\<lambda>_. None)\<rparr>" and b = "Buffered ''secret''"
        and rctx = "\<lparr>rs_status = 200, rs_headers = [], rs_client = \<lparr>ip = V4 7, geo = None\<rparr>,
          rs_path = ''/'', rs_body = NotBuffered\<rparr>"] by simp
qed

end
