(* ===== verification/Pipeline.thy ===== *)
theory Pipeline
  imports Sanity Reputation Signatures Rule_Eval
begin

text \<open>
  \<open>crates/budu-pipeline/src/lib.rs\<close>: the stack of stages, its construction from the configuration, the
  run with its panic policy, and the hot-reload handle. The state the stages share through handles is
  one record \<open>waf_state\<close>; a stage that owns a part of it is lifted to the whole. What the build and the
  machine give (crates, Cargo features, files, the network) is the record \<open>waf_env\<close>; a later call may
  get another one. Shown: the panic policies, the frame of a run, atomic reload, and what it means that
  the whole pipeline lets a request through.
\<close>

section \<open>State and environment\<close>

record ('n, 'b, 'c, 'a, 'r, 're) waf_state =
  w_blocks :: "'n block_entry list"
  w_allow :: "'n block_entry list"
  w_limiter :: "'b ip_rate_limiter"
  w_db :: "('a, 'r) signature_db"
  w_rules :: "('re, 'n, 'b, 'c) rules_stage"

record ('h, 'n, 'b, 'c, 'a, 'r, 're, 'g) waf_env =
  e_deps :: "('h, 'n, 'b, 'c) limit_deps"
  e_match :: "('a, 'r) match_deps"
  e_rule :: "'re rule_deps"
  e_iso_of :: "'g \<Rightarrow> ip_addr \<Rightarrow> string option"
  f_fail2ban :: bool
  f_geoip :: bool
  f_remote :: bool
  e_read :: "string \<Rightarrow> string + string"
  e_open_db :: "string \<Rightarrow> string + 'g"
  e_sig_toml :: "string \<Rightarrow> string + signature list"
  e_rule_toml :: "string \<Rightarrow> string + rule_def list"
  e_client_ok :: bool
  e_fetch :: "string \<Rightarrow> bytes option"

text \<open>The immutable part of a pipeline.\<close>

record 'g pipeline =
  p_geo :: "'g geo_stage option"
  p_sanity :: sanity_stage
  p_on_error :: on_error

datatype pipe_error =
    PeReputation string
  | PeSignatures signature_error
  | PePanic
  | PeTimezone string
  | PeRules rule_error
  | PeAllowlist string
  | PeGeo geo_error

section \<open>Stages over the shared state\<close>

definition lift_stage ::
  "('w \<Rightarrow> 's) \<Rightarrow> ('s \<Rightarrow> 'w \<Rightarrow> 'w) \<Rightarrow> ('h, 's) stage \<Rightarrow> ('h, 'w) stage" where
  "lift_stage get put st ctx w = (case st ctx (get w) of
     Ret f (c, s) \<Rightarrow> Ret f (c, put s w)
   | Panic (c, s) \<Rightarrow> Panic (c, put s w))"

definition early_stages ::
  "('h, 'n, 'b, 'c, 'a, 'r, 're, 'g) waf_env \<Rightarrow> u64 \<Rightarrow> 'g pipeline \<Rightarrow>
     ('h, ('n, 'b, 'c, 'a, 'r, 're) waf_state) stage list" where
  "early_stages E now p =
     [lift_stage w_blocks (\<lambda>s w. w\<lparr>w_blocks := s\<rparr>) (reputation_inspect (e_deps E) now)] @
     (case p_geo p of None \<Rightarrow> [] | Some g \<Rightarrow> [geo_inspect (e_iso_of E) g]) @
     [lift_stage w_limiter (\<lambda>s w. w\<lparr>w_limiter := s\<rparr>) (ratelimit_inspect (e_deps E) now),
      sanity_inspect (e_deps E) (p_sanity p),
      normalize_inspect]"

definition late_stages ::
  "('h, 'n, 'b, 'c, 'a, 'r, 're, 'g) waf_env \<Rightarrow> u64 \<Rightarrow>
     ('h, ('n, 'b, 'c, 'a, 'r, 're) waf_state) stage list" where
  "late_stages E now =
     [lift_stage w_rules (\<lambda>s w. w\<lparr>w_rules := s\<rparr>) (rules_inspect (e_deps E) (e_rule E) now),
      lift_stage w_db (\<lambda>s w. w\<lparr>w_db := s\<rparr>) (signature_inspect (e_match E))]"

section \<open>Running\<close>

definition panic_block :: waf_decision where
  "panic_block = Block ''pipeline.panic'' 500 ''inspection error''"

fun run ::
  "on_error \<Rightarrow> ('h, 'w) stage list \<Rightarrow> 'h request_ctx \<Rightarrow> 'w \<Rightarrow> waf_decision \<times> 'h request_ctx \<times> 'w" where
  "run pol [] ctx w = (Allow, ctx, w)"
| "run pol (st # sts) ctx w = (case st ctx w of
     Ret Continue (c, v) \<Rightarrow> run pol sts c v
   | Ret (Break d) (c, v) \<Rightarrow> (d, c, v)
   | Panic (c, v) \<Rightarrow> (case pol of
       Closed \<Rightarrow> (panic_block, c, v)
     | Open \<Rightarrow> run pol sts c v))"

definition evaluate_early ::
  "('h, 'n, 'b, 'c, 'a, 'r, 're, 'g) waf_env \<Rightarrow> u64 \<Rightarrow> 'g pipeline \<Rightarrow> 'h request_ctx \<Rightarrow>
     ('n, 'b, 'c, 'a, 'r, 're) waf_state \<Rightarrow>
     waf_decision \<times> 'h request_ctx \<times> ('n, 'b, 'c, 'a, 'r, 're) waf_state" where
  "evaluate_early E now p ctx w = run (p_on_error p) (early_stages E now p) ctx w"

definition evaluate_late ::
  "('h, 'n, 'b, 'c, 'a, 'r, 're, 'g) waf_env \<Rightarrow> u64 \<Rightarrow> 'g pipeline \<Rightarrow> 'h request_ctx \<Rightarrow>
     ('n, 'b, 'c, 'a, 'r, 're) waf_state \<Rightarrow>
     waf_decision \<times> 'h request_ctx \<times> ('n, 'b, 'c, 'a, 'r, 're) waf_state" where
  "evaluate_late E now p ctx w = run (p_on_error p) (late_stages E now) ctx w"

definition evaluate ::
  "('h, 'n, 'b, 'c, 'a, 'r, 're, 'g) waf_env \<Rightarrow> u64 \<Rightarrow> 'g pipeline \<Rightarrow> 'h request_ctx \<Rightarrow>
     ('n, 'b, 'c, 'a, 'r, 're) waf_state \<Rightarrow>
     waf_decision \<times> 'h request_ctx \<times> ('n, 'b, 'c, 'a, 'r, 're) waf_state" where
  "evaluate E now p ctx w = (case evaluate_early E now p ctx w of
     (Allow, c, v) \<Rightarrow> evaluate_late E now p c v
   | blocked \<Rightarrow> blocked)"

definition is_whitelisted ::
  "('h, 'n, 'b, 'c, 'a, 'r, 're, 'g) waf_env \<Rightarrow> u64 \<Rightarrow> ('n, 'b, 'c, 'a, 'r, 're) waf_state \<Rightarrow> ip_addr \<Rightarrow> bool" where
  "is_whitelisted E now w a = blocks_contain (e_deps E) now (w_allow w) a"

definition pipeline_evaluate_response ::
  "('h, 'n, 'b, 'c, 'a, 'r, 're, 'g) waf_env \<Rightarrow> u64 \<Rightarrow> 'h response_ctx \<Rightarrow>
     ('n, 'b, 'c, 'a, 'r, 're) waf_state \<Rightarrow> waf_decision \<times> ('n, 'b, 'c, 'a, 'r, 're) waf_state" where
  "pipeline_evaluate_response E now rctx w =
     (case rules_inspect_response (e_deps E) (e_rule E) now rctx (w_rules w) of
        (d, s) \<Rightarrow> (d, w\<lparr>w_rules := s\<rparr>))"

definition pipeline_needs_response_body :: "('n, 'b, 'c, 'a, 'r, 're) waf_state \<Rightarrow> bool" where
  "pipeline_needs_response_body w = needs_response_body (rules (w_rules w))"

section \<open>Construction\<close>

definition parse_default_tz :: "string \<Rightarrow> pipe_error + int" where
  "parse_default_tz tz = (case parse_tz_offset tz of None \<Rightarrow> Inl (PeTimezone tz) | Some o' \<Rightarrow> Inr o')"

definition load_signatures ::
  "('h, 'n, 'b, 'c, 'a, 'r, 're, 'g) waf_env \<Rightarrow> 'n config \<Rightarrow> pipe_error + ('a, 'r) signature_db" where
  "load_signatures E cfg =
     (case db_load (e_deps E) (e_match E) (e_read E) (e_sig_toml E) (signatures_path (paths cfg)) of
        None \<Rightarrow> Inl PePanic
      | Some (Inl e) \<Rightarrow> Inl (PeSignatures e)
      | Some (Inr db) \<Rightarrow> Inr db)"

definition load_rules ::
  "('h, 'n, 'b, 'c, 'a, 'r, 're, 'g) waf_env \<Rightarrow> 'n config \<Rightarrow> int \<Rightarrow> pipe_error + ('re, 'n, 'b) rule_set" where
  "load_rules E cfg tz =
     (case rules_load (e_deps E) (e_rule E) (e_read E) (e_rule_toml E) (rules_path (paths cfg)) (scoring cfg) tz of
        Inl e \<Rightarrow> Inl (PeRules e)
      | Inr rs \<Rightarrow> Inr rs)"

definition load_allowlist ::
  "('h, 'n, 'b, 'c, 'a, 'r, 're, 'g) waf_env \<Rightarrow> u64 \<Rightarrow> 'n config \<Rightarrow> pipe_error + 'n block_entry list" where
  "load_allowlist E now cfg =
     (case build_allowlist (e_deps E) (f_fail2ban E) (e_read E) now (reputation cfg) of
        Inl e \<Rightarrow> Inl (PeAllowlist e)
      | Inr es \<Rightarrow> Inr es)"

definition load_geo ::
  "('h, 'n, 'b, 'c, 'a, 'r, 're, 'g) waf_env \<Rightarrow> 'n config \<Rightarrow> pipe_error + 'g geo_stage option" where
  "load_geo E cfg =
     (if f_geoip E then
        (case geo_from_config (e_open_db E) (geoip cfg) of Inl e \<Rightarrow> Inl (PeGeo e) | Inr g \<Rightarrow> Inr g)
      else Inr None)"

definition pipeline_from_config ::
  "('h, 'n, 'b, 'c, 'a, 'r, 're, 'g) waf_env \<Rightarrow> u64 \<Rightarrow> 'n config \<Rightarrow>
     pipe_error + 'g pipeline \<times> ('n, 'b, 'c, 'a, 'r, 're) waf_state" where
  "pipeline_from_config E now cfg =
     (case build_blocks (e_deps E) (f_fail2ban E) (e_read E) now (reputation cfg) of
        Inl e \<Rightarrow> Inl (PeReputation e)
      | Inr blocks \<Rightarrow>
     (case load_signatures E cfg of
        Inl e \<Rightarrow> Inl e
      | Inr db \<Rightarrow>
     (case parse_default_tz (timezone (server cfg)) of
        Inl e \<Rightarrow> Inl e
      | Inr tz \<Rightarrow>
     (case load_rules E cfg tz of
        Inl e \<Rightarrow> Inl e
      | Inr rs \<Rightarrow>
     (case load_allowlist E now cfg of
        Inl e \<Rightarrow> Inl e
      | Inr allow \<Rightarrow>
     (case load_geo E cfg of
        Inl e \<Rightarrow> Inl e
      | Inr g \<Rightarrow>
          Inr (\<lparr>p_geo = g, p_sanity = sanity_from_config (limits cfg), p_on_error = on_error (server cfg)\<rparr>,
               \<lparr>w_blocks = blocks, w_allow = allow,
                w_limiter = ratelimit_from_config (e_deps E) (ratelimit cfg),
                w_db = db, w_rules = rules_stage_new (e_deps E) rs\<rparr>)))))))"

section \<open>Reload, refresh and maintenance\<close>

text \<open>Each returns the error, if any, and the state it leaves.\<close>

definition reload_apply ::
  "('h, 'n, 'b, 'c, 'a, 'r, 're, 'g) waf_env \<Rightarrow> u64 \<Rightarrow> 'n config \<Rightarrow>
     ('n, 'b, 'c, 'a, 'r, 're) waf_state \<Rightarrow> pipe_error option \<times> ('n, 'b, 'c, 'a, 'r, 're) waf_state" where
  "reload_apply E now cfg w =
     (case load_signatures E cfg of
        Inl e \<Rightarrow> (Some e, w)
      | Inr db \<Rightarrow>
     (case parse_default_tz (timezone (server cfg)) of
        Inl e \<Rightarrow> (Some e, w)
      | Inr tz \<Rightarrow>
     (case load_rules E cfg tz of
        Inl e \<Rightarrow> (Some e, w)
      | Inr rs \<Rightarrow>
     (case load_allowlist E now cfg of
        Inl e \<Rightarrow> (Some e, w)
      | Inr allow \<Rightarrow>
          (None, w\<lparr>w_db := db, w_rules := (w_rules w)\<lparr>rules := rs\<rparr>, w_allow := allow\<rparr>)))))"

definition refresh_blocklist ::
  "('h, 'n, 'b, 'c, 'a, 'r, 're, 'g) waf_env \<Rightarrow> u64 \<Rightarrow> 'n config \<Rightarrow>
     ('n, 'b, 'c, 'a, 'r, 're) waf_state \<Rightarrow> pipe_error option \<times> ('n, 'b, 'c, 'a, 'r, 're) waf_state" where
  "refresh_blocklist E now cfg w =
     (case build_blocks (e_deps E) (f_fail2ban E) (e_read E) now (reputation cfg) of
        Inl e \<Rightarrow> (Some (PeReputation e), w)
      | Inr blocks \<Rightarrow>
          let remote = (if f_remote E then
                fetch_blocklist_urls (e_deps E) (f_fail2ban E) (e_client_ok E) (e_fetch E) now
                  (blocklist_urls (reputation cfg))
              else [])
          in (None, w\<lparr>w_blocks := blocks @ remote\<rparr>))"

definition run_maintenance ::
  "('h, 'n, 'b, 'c, 'a, 'r, 're, 'g) waf_env \<Rightarrow> u64 \<Rightarrow>
     ('n, 'b, 'c, 'a, 'r, 're) waf_state \<Rightarrow> ('n, 'b, 'c, 'a, 'r, 're) waf_state" where
  "run_maintenance E now w =
     w\<lparr>w_limiter := limiter_maintenance (e_deps E) now (w_limiter w),
       w_rules := (w_rules w)\<lparr>stage_counters := counter_maintenance (e_deps E) now (stage_counters (w_rules w))\<rparr>,
       w_blocks := prune_expired now (w_blocks w),
       w_allow := prune_expired now (w_allow w)\<rparr>"

record pipeline_metrics =
  pm_signatures :: nat
  pm_rules :: nat
  pm_rule_log_matches :: u64
  pm_blocklist :: nat
  pm_allowlist :: nat
  pm_rate_buckets :: u64
  pm_counters :: u64

definition pipeline_metrics_of ::
  "('h, 'n, 'b, 'c, 'a, 'r, 're, 'g) waf_env \<Rightarrow> ('n, 'b, 'c, 'a, 'r, 're) waf_state \<Rightarrow> pipeline_metrics" where
  "pipeline_metrics_of E w =
     \<lparr>pm_signatures = db_count (w_db w), pm_rules = rules_len (rules (w_rules w)),
      pm_rule_log_matches = stage_log_hits (w_rules w), pm_blocklist = length (w_blocks w),
      pm_allowlist = length (w_allow w), pm_rate_buckets = limiter_tracked (e_deps E) (w_limiter w),
      pm_counters = counter_tracked (e_deps E) (stage_counters (w_rules w))\<rparr>"

section \<open>Runs\<close>

text \<open>\<open>reaches sts c v c' v'\<close>: every stage of the list lets the request continue, from one context and
  state to another.\<close>

inductive reaches ::
  "('h, 'w) stage list \<Rightarrow> 'h request_ctx \<Rightarrow> 'w \<Rightarrow> 'h request_ctx \<Rightarrow> 'w \<Rightarrow> bool" where
  reaches_nil: "reaches [] c v c v"
| reaches_cons: "st c v = Ret Continue (c1, v1) \<Longrightarrow> reaches sts c1 v1 c2 v2 \<Longrightarrow> reaches (st # sts) c v c2 v2"

inductive_cases reaches_ConsE: "reaches (st # sts) c v c' v'"

lemma run_reaches: "reaches pre c v c' v' \<Longrightarrow> run pol (pre @ post) c v = run pol post c' v'"
  by (induction rule: reaches.induct) simp_all

text \<open>Where a run comes from: all stages let the request pass, or one decides, or one panics and the
  policy is fail-closed. With fail-open a panic is skipped.\<close>

lemma run_closed_cases:
  assumes "run Closed sts c v = (d, c', v')"
  obtains (through) "reaches sts c v c' v'" "d = Allow"
  | (decided) pre st post c1 v1 where "sts = pre @ st # post" "reaches pre c v c1 v1"
      "st c1 v1 = Ret (Break d) (c', v')"
  | (panicked) pre st post c1 v1 where "sts = pre @ st # post" "reaches pre c v c1 v1"
      "st c1 v1 = Panic (c', v')" "d = panic_block"
proof -
  have "(reaches sts c v c' v' \<and> d = Allow) \<or>
    (\<exists>pre st post c1 v1. sts = pre @ st # post \<and> reaches pre c v c1 v1 \<and>
      (st c1 v1 = Ret (Break d) (c', v') \<or> st c1 v1 = Panic (c', v') \<and> d = panic_block))"
    using assms
  proof (induction sts arbitrary: c v)
    case Nil
    then show ?case by (auto intro: reaches_nil)
  next
    case (Cons st sts)
    show ?case
    proof (cases "st c v")
      case (Ret f s)
      obtain c1 v1 where s: "s = (c1, v1)" by force
      show ?thesis
      proof (cases f)
        case Continue
        with Ret s Cons.prems have "run Closed sts c1 v1 = (d, c', v')" by simp
        from Cons.IH [OF this] show ?thesis
          using Ret s Continue by (metis append_Cons reaches_cons)
      next
        case (Break x)
        with Ret s Cons.prems have "st c v = Ret (Break d) (c', v')" by simp
        then show ?thesis using reaches_nil [of c v] by (metis append_Nil)
      qed
    next
      case (Panic s)
      with Cons.prems have "st c v = Panic (c', v')" "d = panic_block" by (cases s; simp)+
      then show ?thesis using reaches_nil [of c v] by (metis append_Nil)
    qed
  qed
  then show thesis using that by blast
qed

lemma run_frame:
  "\<forall>st\<in>set sts. waf_stage st \<Longrightarrow> ctx_frame c (fst (snd (run pol sts c v)))"
proof (induction sts arbitrary: c v)
  case (Cons st sts)
  have fr: "ctx_frame c (fst (stage_state (st c v)))"
    using Cons.prems by (simp add: waf_stage.frame)
  have rest: "ctx_frame c (fst (snd (run pol sts c1 v1)))" if "ctx_frame c c1" for c1 v1
    using that Cons ctx_frame_trans by (metis list.set_intros(2))
  show ?case
  proof (cases "st c v")
    case (Ret f s)
    with fr rest show ?thesis by (cases s; cases f) simp_all
  next
    case (Panic s)
    with fr rest show ?thesis by (cases s; cases pol) simp_all
  qed
qed simp

lemma lift_stage_waf: "waf_stage st \<Longrightarrow> waf_stage (lift_stage get put st)"
  using waf_stage.frame [of st]
  by (auto simp: waf_stage_def lift_stage_def split: stage_res.split prod.split)
     (metis fst_conv stage_state.simps)+

lemma early_stages_waf: "\<forall>st\<in>set (early_stages E now p). waf_stage st"
  by (auto simp: early_stages_def intro!: lift_stage_waf reputation.waf_stage_axioms geoip.waf_stage_axioms
      ratelimit.waf_stage_axioms sanity.waf_stage_axioms normalize.waf_stage_axioms split: option.splits)

lemma late_stages_waf: "\<forall>st\<in>set (late_stages E now). waf_stage st"
  by (auto simp: late_stages_def intro!: lift_stage_waf rules_st.waf_stage_axioms signatures.waf_stage_axioms)

section \<open>The stages of a standard pipeline\<close>

lemma lift_stage_Ret:
  "st c (get v) = Ret f (c', s) \<Longrightarrow> lift_stage get put st c v = Ret f (c', put s v)"
  by (simp add: lift_stage_def)

definition geo_stamp ::
  "('h, 'n, 'b, 'c, 'a, 'r, 're, 'g) waf_env \<Rightarrow> 'g pipeline \<Rightarrow> 'h request_ctx \<Rightarrow> 'h request_ctx" where
  "geo_stamp E p ctx = (case p_geo p of
     None \<Rightarrow> ctx
   | Some g \<Rightarrow> ctx\<lparr>rq_client := (rq_client ctx)\<lparr>geo := geo_lookup (e_iso_of E) g (ip (rq_client ctx))\<rparr>\<rparr>)"

definition geo_permits ::
  "('h, 'n, 'b, 'c, 'a, 'r, 're, 'g) waf_env \<Rightarrow> 'g pipeline \<Rightarrow> ip_addr \<Rightarrow> bool" where
  "geo_permits E p a = (case p_geo p of
     None \<Rightarrow> True
   | Some g \<Rightarrow> country_decision (geo_lookup (e_iso_of E) g a) (gs_allow g) (gs_block g))"

lemma geo_stamp_frame [simp]:
  "rq_path (geo_stamp E p ctx) = rq_path ctx" "rq_query (geo_stamp E p ctx) = rq_query ctx"
  "rq_headers (geo_stamp E p ctx) = rq_headers ctx" "rq_body (geo_stamp E p ctx) = rq_body ctx"
  "ip (rq_client (geo_stamp E p ctx)) = ip (rq_client ctx)" "uri_len (geo_stamp E p ctx) = uri_len ctx"
  by (simp_all add: geo_stamp_def uri_len_def split: option.split)

text \<open>The front of the early stack: the list check, then the country check.\<close>

lemma run_front:
  "run pol (early_stages E now p) ctx w =
     (if blocks_contain (e_deps E) now (w_blocks w) (ip (rq_client ctx)) then
        (Block ''reputation.blocklist'' 403 ''source IP is blocklisted'', ctx, w)
      else if \<not> geo_permits E p (ip (rq_client ctx)) then
        (Block ''geoip.country'' 403 ''source country not permitted'', geo_stamp E p ctx, w)
      else run pol
        [lift_stage w_limiter (\<lambda>s w. w\<lparr>w_limiter := s\<rparr>) (ratelimit_inspect (e_deps E) now),
         sanity_inspect (e_deps E) (p_sanity p), normalize_inspect] (geo_stamp E p ctx) w)"
  by (simp add: early_stages_def lift_stage_def reputation_inspect_def geo_inspect_def geo_permits_def
      geo_stamp_def Let_def split: option.split)

text \<open>Early evaluation, case by case; no early stage panics, so the policy does not matter.\<close>

lemma run_early:
  "run pol (early_stages E now p) ctx w =
     (if blocks_contain (e_deps E) now (w_blocks w) (ip (rq_client ctx)) then
        (Block ''reputation.blocklist'' 403 ''source IP is blocklisted'', ctx, w)
      else if \<not> geo_permits E p (ip (rq_client ctx)) then
        (Block ''geoip.country'' 403 ''source country not permitted'', geo_stamp E p ctx, w)
      else case limiter_check (e_deps E) now (w_limiter w) (ip (rq_client ctx)) of
        (Some retry, l) \<Rightarrow> (RateLimited retry, geo_stamp E p ctx, w\<lparr>w_limiter := l\<rparr>)
      | (None, l) \<Rightarrow>
          (case sanity_inspect (e_deps E) (p_sanity p) (geo_stamp E p ctx) (w\<lparr>w_limiter := l\<rparr>) of
             Ret Continue _ \<Rightarrow>
               (Allow, fst (stage_state (normalize_inspect (geo_stamp E p ctx) ())), w\<lparr>w_limiter := l\<rparr>)
           | Ret (Break d) _ \<Rightarrow> (d, geo_stamp E p ctx, w\<lparr>w_limiter := l\<rparr>)
           | Panic _ \<Rightarrow> (Allow, ctx, w)))"
proof -
  obtain ans l where l: "limiter_check (e_deps E) now (w_limiter w) (ip (rq_client ctx)) = (ans, l)"
    by force
  obtain f where f: "sanity_inspect (e_deps E) (p_sanity p) (geo_stamp E p ctx) (w\<lparr>w_limiter := l\<rparr>) =
      Ret f (geo_stamp E p ctx, w\<lparr>w_limiter := l\<rparr>)"
    using sanity_total [of "e_deps E" "p_sanity p" "geo_stamp E p ctx" "w\<lparr>w_limiter := l\<rparr>"] by blast
  show ?thesis
    by (cases ans; cases f)
       (simp_all add: run_front lift_stage_def ratelimit_inspect_def l f normalize_inspect_ret)
qed

lemma sanity_break_not_allow: "sanity_inspect D st c v = Ret (Break d) s \<Longrightarrow> d \<noteq> Allow"
  by (auto simp: sanity_inspect_def split: if_splits option.splits)

lemma early_allow:
  assumes "evaluate_early E now p ctx w = (Allow, c, v)"
  shows "\<not> blocks_contain (e_deps E) now (w_blocks w) (ip (rq_client ctx))"
    and "geo_permits E p (ip (rq_client ctx))"
    and "\<exists>l. limiter_check (e_deps E) now (w_limiter w) (ip (rq_client ctx)) = (None, l) \<and>
      v = w\<lparr>w_limiter := l\<rparr>"
    and "c = fst (stage_state (normalize_inspect (geo_stamp E p ctx) ()))"
    and "\<forall>u. sanity_inspect (e_deps E) (p_sanity p) (geo_stamp E p ctx) u = Ret Continue (geo_stamp E p ctx, u)"
proof -
  obtain ans l where l: "limiter_check (e_deps E) now (w_limiter w) (ip (rq_client ctx)) = (ans, l)"
    by force
  obtain f where f: "sanity_inspect (e_deps E) (p_sanity p) (geo_stamp E p ctx) (w\<lparr>w_limiter := l\<rparr>) =
      Ret f (geo_stamp E p ctx, w\<lparr>w_limiter := l\<rparr>)"
    using sanity_total [of "e_deps E" "p_sanity p" "geo_stamp E p ctx" "w\<lparr>w_limiter := l\<rparr>"] by blast
  note run = assms [unfolded evaluate_early_def run_early]
  have "f \<noteq> Break Allow"
    using f sanity_break_not_allow [of "e_deps E" "p_sanity p" "geo_stamp E p ctx" "w\<lparr>w_limiter := l\<rparr>"]
    by auto
  then have "f = Continue"
    using run f by (cases f; auto simp: l split: if_splits option.splits)
  with run f l show "\<not> blocks_contain (e_deps E) now (w_blocks w) (ip (rq_client ctx))"
    "geo_permits E p (ip (rq_client ctx))"
    "\<exists>l. limiter_check (e_deps E) now (w_limiter w) (ip (rq_client ctx)) = (None, l) \<and> v = w\<lparr>w_limiter := l\<rparr>"
    "c = fst (stage_state (normalize_inspect (geo_stamp E p ctx) ()))"
    by (auto split: if_splits option.splits)
  show "\<forall>u. sanity_inspect (e_deps E) (p_sanity p) (geo_stamp E p ctx) u = Ret Continue (geo_stamp E p ctx, u)"
    using f \<open>f = Continue\<close> by (simp add: sanity_continue_iff)
qed

lemma rules_inspect_total: "\<exists>f s. rules_inspect D R now c v = Ret f (c, s)"
  by (simp add: rules_inspect_def split: prod.split)

lemma signature_total:
  assumes "aho_laws M" "rset_laws M" "db_compile D M sigs = Inr db"
  shows "\<exists>f. signature_inspect M c db = Ret f (c, db) \<and>
    (f = Continue \<longleftrightarrow> (\<forall>s\<in>set sigs. \<not> sig_matches M s (haystack c))) \<and> f \<noteq> Break Allow"
  using scan_cases [OF assms, of "haystack c"]
  by (auto simp: signature_inspect_def split: option.splits)

section \<open>Reachable states\<close>

text \<open>What may change between two steps of the system: files, feeds and the clock, not the crates and
  features it was built with.\<close>

definition same_build ::
  "('h, 'n, 'b, 'c, 'a, 'r, 're, 'g) waf_env \<Rightarrow> ('h, 'n, 'b, 'c, 'a, 'r, 're, 'g) waf_env \<Rightarrow> bool" where
  "same_build E E' \<longleftrightarrow> e_deps E' = e_deps E \<and> e_match E' = e_match E \<and> e_rule E' = e_rule E"

inductive waf_step ::
  "('h, 'n, 'b, 'c, 'a, 'r, 're, 'g) waf_env \<Rightarrow> ('n, 'b, 'c, 'a, 'r, 're) waf_state \<Rightarrow>
     ('n, 'b, 'c, 'a, 'r, 're) waf_state \<Rightarrow> bool" for E where
  step_early: "evaluate_early E now p ctx w = (d, c, w') \<Longrightarrow> waf_step E w w'"
| step_late: "evaluate_late E now p ctx w = (d, c, w') \<Longrightarrow> waf_step E w w'"
| step_response: "pipeline_evaluate_response E now rctx w = (d, w') \<Longrightarrow> waf_step E w w'"
| step_reload: "same_build E E' \<Longrightarrow> reload_apply E' now cfg w = (e, w') \<Longrightarrow> waf_step E w w'"
| step_refresh: "same_build E E' \<Longrightarrow> refresh_blocklist E' now cfg w = (e, w') \<Longrightarrow> waf_step E w w'"
| step_maintenance: "waf_step E w (run_maintenance E now w)"

inductive waf_reachable ::
  "('h, 'n, 'b, 'c, 'a, 'r, 're, 'g) waf_env \<Rightarrow> ('n, 'b, 'c, 'a, 'r, 're) waf_state \<Rightarrow> bool" for E where
  reach_init: "same_build E E' \<Longrightarrow> pipeline_from_config E' now cfg = Inr (p, w) \<Longrightarrow> waf_reachable E w"
| reach_step: "waf_reachable E w \<Longrightarrow> waf_step E w w' \<Longrightarrow> waf_reachable E w'"

definition waf_inv ::
  "('h, 'n, 'b, 'c, 'a, 'r, 're, 'g) waf_env \<Rightarrow> ('n, 'b, 'c, 'a, 'r, 're) waf_state \<Rightarrow> bool" where
  "waf_inv E w \<longleftrightarrow> rule_set_wf (e_deps E) (rules (w_rules w)) \<and>
     (\<exists>sigs. db_compile (e_deps E) (e_match E) sigs = Inr (w_db w))"

lemma load_signatures_compiled:
  "same_build E E' \<Longrightarrow> load_signatures E' cfg = Inr db \<Longrightarrow>
     \<exists>sigs. db_compile (e_deps E) (e_match E) sigs = Inr db"
  by (auto simp: load_signatures_def db_load_def db_builtin_def same_build_def
      split: option.splits sum.splits if_splits)

lemma load_rules_compiled:
  "same_build E E' \<Longrightarrow> load_rules E' cfg tz = Inr rs \<Longrightarrow> rule_set_wf (e_deps E) rs"
  by (auto simp: load_rules_def same_build_def dest: rules_load_wf split: sum.splits)

lemma run_keeps:
  "(\<And>st c v. st \<in> set sts \<Longrightarrow> P v \<Longrightarrow> P (snd (stage_state (st c v)))) \<Longrightarrow> P v \<Longrightarrow>
     P (snd (snd (run pol sts c v)))"
proof (induction sts arbitrary: c v)
  case (Cons st sts)
  have "P (snd (stage_state (st c v)))" using Cons.prems by simp
  moreover have "P (snd (snd (run pol sts c1 v1)))" if "P v1" for c1 v1
    using that Cons by simp
  ultimately show ?case
    by (cases "st c v"; cases "stage_state (st c v)")
       (auto split: control_flow.split on_error.split)
qed simp

lemma rules_inspect_wf:
  assumes "rule_set_wf D (rules s)"
  shows "rule_set_wf D (rules (snd (stage_state (rules_inspect D R now c s))))"
proof -
  let ?st = "\<lparr>log_hits = Some (stage_log_hits s), counters = stage_counters s\<rparr>"
  obtain d rs' st where e: "evaluate_inner D R now c (rules s) ?st = (d, rs', st)"
    by (cases "evaluate_inner D R now c (rules s) ?st") blast
  then have "rule_set_wf D rs'" using evaluate_inner_wf [OF assms, of R now c ?st] by simp
  with e show ?thesis by (simp add: rules_inspect_def evaluate_counting_def)
qed

lemma early_keeps:
  "st \<in> set (early_stages E now p) \<Longrightarrow> w_rules (snd (stage_state (st c v))) = w_rules v \<and>
     w_db (snd (stage_state (st c v))) = w_db v"
  by (auto simp: early_stages_def lift_stage_def reputation_inspect_def geo_inspect_def
      ratelimit_inspect_def sanity_inspect_def normalize_inspect_ret Let_def
      split: option.splits prod.splits)

lemma late_keeps:
  assumes "st \<in> set (late_stages E now)" "waf_inv E v"
  shows "waf_inv E (snd (stage_state (st c v)))"
proof -
  have "snd (stage_state (lift_stage w_db (\<lambda>s w. w\<lparr>w_db := s\<rparr>) (signature_inspect (e_match E)) c v)) = v"
    by (simp add: lift_stage_def signature_inspect_def split: option.split)
  moreover obtain f s where "rules_inspect (e_deps E) (e_rule E) now c (w_rules v) = Ret f (c, s)"
    using rules_inspect_total by blast
  ultimately show ?thesis
    using assms rules_inspect_wf [of "e_deps E" "w_rules v" "e_rule E" now c]
    by (auto simp: late_stages_def waf_inv_def lift_stage_def)
qed

lemma waf_step_inv: "waf_step E w w' \<Longrightarrow> waf_inv E w \<Longrightarrow> waf_inv E w'"
proof (induction rule: waf_step.induct)
  case (step_early now p ctx w d c w')
  have "waf_inv E (snd (snd (run (p_on_error p) (early_stages E now p) ctx w)))"
    using step_early(2) early_keeps [of _ E now p]
    by (intro run_keeps [where P = "waf_inv E"]) (simp_all add: waf_inv_def)
  with step_early(1) show ?case by (simp add: evaluate_early_def)
next
  case (step_late now p ctx w d c w')
  have "waf_inv E (snd (snd (run (p_on_error p) (late_stages E now) ctx w)))"
    using step_late(2) late_keeps by (intro run_keeps [where P = "waf_inv E"]) simp_all
  with step_late(1) show ?case by (simp add: evaluate_late_def)
next
  case (step_response now rctx w d w')
  then show ?case
    by (auto simp: pipeline_evaluate_response_def rules_inspect_response_def waf_inv_def split: prod.splits)
next
  case (step_reload E' now cfg w e w')
  then show ?case
    by (auto simp: reload_apply_def waf_inv_def dest: load_rules_compiled
        intro: load_signatures_compiled split: sum.splits)
next
  case (step_refresh E' now cfg w e w')
  then show ?case by (auto simp: refresh_blocklist_def waf_inv_def Let_def split: sum.splits)
next
  case (step_maintenance w now)
  then show ?case by (simp add: run_maintenance_def waf_inv_def)
qed

lemma waf_reachable_inv: "waf_reachable E w \<Longrightarrow> waf_inv E w"
proof (induction rule: waf_reachable.induct)
  case (reach_init E' now cfg p w)
  then show ?case
    by (auto simp: pipeline_from_config_def waf_inv_def rules_stage_new_def dest: load_rules_compiled
        intro: load_signatures_compiled split: sum.splits)
qed (rule waf_step_inv)

text \<open>The late stack on a compiled database: the rules, then the signatures; neither panics.\<close>

lemma run_late:
  assumes "aho_laws (e_match E)" "rset_laws (e_match E)"
    and "db_compile (e_deps E) (e_match E) sigs = Inr (w_db v)"
  shows "\<exists>f s g. rules_inspect (e_deps E) (e_rule E) now c (w_rules v) = Ret f (c, s) \<and>
    signature_inspect (e_match E) c (w_db v) = Ret g (c, w_db v) \<and>
    (g = Continue \<longleftrightarrow> (\<forall>s\<in>set sigs. \<not> sig_matches (e_match E) s (haystack c))) \<and> g \<noteq> Break Allow \<and>
    (\<forall>pol. run pol (late_stages E now) c v =
      (case f of
         Break d \<Rightarrow> (d, c, v\<lparr>w_rules := s\<rparr>)
       | Continue \<Rightarrow> (case g of Break d \<Rightarrow> (d, c, v\<lparr>w_rules := s\<rparr>) | Continue \<Rightarrow> (Allow, c, v\<lparr>w_rules := s\<rparr>))))"
proof -
  obtain f s where f: "rules_inspect (e_deps E) (e_rule E) now c (w_rules v) = Ret f (c, s)"
    using rules_inspect_total by blast
  obtain g where g: "signature_inspect (e_match E) c (w_db v) = Ret g (c, w_db v)"
    "g = Continue \<longleftrightarrow> (\<forall>s\<in>set sigs. \<not> sig_matches (e_match E) s (haystack c))" "g \<noteq> Break Allow"
    using signature_total [OF assms, of c] by blast
  have "run pol (late_stages E now) c v =
      (case f of
         Break d \<Rightarrow> (d, c, v\<lparr>w_rules := s\<rparr>)
       | Continue \<Rightarrow> (case g of Break d \<Rightarrow> (d, c, v\<lparr>w_rules := s\<rparr>) | Continue \<Rightarrow> (Allow, c, v\<lparr>w_rules := s\<rparr>)))"
    for pol
    using f g(1) by (cases f; cases g) (simp_all add: late_stages_def lift_stage_def)
  with f g show ?thesis by blast
qed

lemma early_stage_total: "st \<in> set (early_stages E now p) \<Longrightarrow> \<exists>f s. st c v = Ret f s"
proof -
  have "\<exists>f s. lift_stage w_blocks (\<lambda>s w. w\<lparr>w_blocks := s\<rparr>) (reputation_inspect (e_deps E) now) c v = Ret f s"
    "\<exists>f s. lift_stage w_limiter (\<lambda>s w. w\<lparr>w_limiter := s\<rparr>) (ratelimit_inspect (e_deps E) now) c v = Ret f s"
    "\<exists>f s. geo_inspect (e_iso_of E) g c v = Ret f s" "\<exists>f s. normalize_inspect c v = Ret f s"
    "\<exists>f s. sanity_inspect (e_deps E) (p_sanity p) c v = Ret f s" for g
    using sanity_total [of "e_deps E" "p_sanity p" c v]
    by (auto simp: lift_stage_def reputation_inspect_def ratelimit_inspect_def geo_inspect_def
        normalize_inspect_ret Let_def split: option.split prod.split)
  then show "st \<in> set (early_stages E now p) \<Longrightarrow> \<exists>f s. st c v = Ret f s"
    by (cases "p_geo p") (auto simp: early_stages_def)
qed

lemma late_stage_total:
  assumes "aho_laws (e_match E)" "rset_laws (e_match E)"
    and "db_compile (e_deps E) (e_match E) sigs = Inr (w_db v)" "st \<in> set (late_stages E now)"
  shows "\<exists>f s. st c v = Ret f s"
  using run_late [OF assms(1-3), of now c] assms(4)
  by (auto simp: late_stages_def lift_stage_def)

lemma stages_never_panic:
  assumes "waf_inv E w" "aho_laws (e_match E)" "rset_laws (e_match E)"
    and "st \<in> set (early_stages E now p @ late_stages E now)"
  shows "st c w \<noteq> Panic s"
proof -
  obtain sigs where "db_compile (e_deps E) (e_match E) sigs = Inr (w_db w)"
    using assms(1) by (auto simp: waf_inv_def)
  from late_stage_total [OF assms(2,3) this, of st now c] show ?thesis
    using assms(4) early_stage_total [of st E now p c w] by auto
qed

lemma run_policy_irrelevant:
  assumes "aho_laws (e_match E)" "rset_laws (e_match E)" "waf_inv E w"
  shows "run pol (early_stages E now p) ctx w = run pol' (early_stages E now p) ctx w"
    and "run pol (late_stages E now) ctx w = run pol' (late_stages E now) ctx w"
proof -
  show "run pol (early_stages E now p) ctx w = run pol' (early_stages E now p) ctx w"
    unfolding run_early ..
  obtain sigs where "db_compile (e_deps E) (e_match E) sigs = Inr (w_db w)"
    using assms(3) by (auto simp: waf_inv_def)
  from run_late [OF assms(1,2) this, of now ctx]
  show "run pol (late_stages E now) ctx w = run pol' (late_stages E now) ctx w" by metis
qed

lemma evaluate_early_inv:
  "evaluate_early E now p ctx w = (d, c, v) \<Longrightarrow> waf_inv E w \<Longrightarrow> waf_inv E v"
  by (rule waf_step_inv [OF step_early])

section \<open>Properties\<close>

text \<open>C22: the panic policy. When the stages before it let the request pass and a stage panics, a
  fail-closed pipeline answers 500 and runs nothing more, and a fail-open one goes on behind it with
  what the stage left; and a fail-closed pipeline lets a request through only if every stage let it
  pass, or one before any panic allowed it explicitly.\<close>

theorem panic_policy:
  "(reaches pre c v c1 v1 \<and> st c1 v1 = Panic (c2, v2) \<longrightarrow>
      run Closed (pre @ st # post) c v = (Block ''pipeline.panic'' 500 ''inspection error'', c2, v2) \<and>
      run Open (pre @ st # post) c v = run Open post c2 v2) \<and>
   (run Closed sts c v = (Allow, c', v') \<longrightarrow>
      reaches sts c v c' v' \<or>
      (\<exists>p s q c3 v3. sts = p @ s # q \<and> reaches p c v c3 v3 \<and> s c3 v3 = Ret (Break Allow) (c', v')))"
proof (intro conjI impI)
  assume "reaches pre c v c1 v1 \<and> st c1 v1 = Panic (c2, v2)"
  then have "run pol (pre @ st # post) c v = run pol (st # post) c1 v1" "st c1 v1 = Panic (c2, v2)" for pol
    using run_reaches [of pre c v c1 v1] by simp_all
  then show "run Closed (pre @ st # post) c v = (Block ''pipeline.panic'' 500 ''inspection error'', c2, v2)"
    "run Open (pre @ st # post) c v = run Open post c2 v2"
    by (simp_all add: panic_block_def)
next
  assume "run Closed sts c v = (Allow, c', v')"
  then show "reaches sts c v c' v' \<or>
      (\<exists>p s q c3 v3. sts = p @ s # q \<and> reaches p c v c3 v3 \<and> s c3 v3 = Ret (Break Allow) (c', v'))"
    by (rule run_closed_cases) (auto simp: panic_block_def)
qed

theorem panic_policy_witness:
  "run Closed [normalize_inspect, \<lambda>c v. Panic (c, v)] (get_request (V4 7) ''/'' None) () =
     (Block ''pipeline.panic'' 500 ''inspection error'',
      fst (stage_state (normalize_inspect (get_request (V4 7) ''/'' None) ())), ())"
proof -
  let ?c = "get_request (V4 7) ''/'' None"
  have "reaches [normalize_inspect] ?c () (fst (stage_state (normalize_inspect ?c ()))) ()"
    by (rule reaches_cons [OF _ reaches_nil]) (simp add: normalize_inspect_ret)
  then show ?thesis
    using panic_policy [of "[normalize_inspect]" ?c "()" _ "()" "\<lambda>c v. Panic (c, v)"] by simp
qed

text \<open>C33: inspection does not touch the request. Whatever the stages do, also when one panics, the method,
  the path, the query, the headers, the body and the client address of the context stay as they were.\<close>

theorem evaluation_keeps_request:
  "ctx_frame ctx (fst (snd (evaluate E now p ctx w)))"
proof -
  obtain d c v where e: "evaluate_early E now p ctx w = (d, c, v)"
    by (cases "evaluate_early E now p ctx w") blast
  then have "ctx_frame ctx c"
    using run_frame [OF early_stages_waf [of E now p], of ctx "p_on_error p" w] by (simp add: evaluate_early_def)
  moreover have "ctx_frame c (fst (snd (evaluate_late E now p c v)))"
    using run_frame [OF late_stages_waf] by (simp add: evaluate_late_def)
  ultimately show ?thesis
    using ctx_frame_trans by (cases d) (auto simp: evaluate_def e)
qed

text \<open>C23: in operation the fail policy is never needed. In every state the system reaches from a
  configuration by requests, responses, reloads (failed or not), refreshes and maintenance, no stage
  panics on any request, the rule set is well-formed, and the answer does not depend on the policy.\<close>

theorem reachable_never_panics:
  assumes "waf_reachable E w" "aho_laws (e_match E)" "rset_laws (e_match E)"
  shows "rule_set_wf (e_deps E) (rules (w_rules w)) \<and>
    (\<forall>st\<in>set (early_stages E now p @ late_stages E now). \<forall>c s. st c w \<noteq> Panic s) \<and>
    evaluate E now (p\<lparr>p_on_error := Closed\<rparr>) ctx w = evaluate E now (p\<lparr>p_on_error := Open\<rparr>) ctx w"
proof (intro conjI)
  have inv: "waf_inv E w" by (rule waf_reachable_inv [OF assms(1)])
  then show "rule_set_wf (e_deps E) (rules (w_rules w))" by (simp add: waf_inv_def)
  show "\<forall>st\<in>set (early_stages E now p @ late_stages E now). \<forall>c s. st c w \<noteq> Panic s"
    using stages_never_panic [OF inv assms(2,3)] by blast
  obtain d c v where e: "evaluate_early E now p ctx w = (d, c, v)"
    by (cases "evaluate_early E now p ctx w") blast
  have st: "early_stages E now (p\<lparr>p_on_error := x\<rparr>) = early_stages E now p" for x
    by (simp add: early_stages_def)
  have pol: "evaluate_early E now (p\<lparr>p_on_error := x\<rparr>) ctx w = (d, c, v)" for x
    using e run_policy_irrelevant(1) [OF assms(2,3) inv, of x now p ctx "p_on_error p"]
    by (simp add: evaluate_early_def st)
  have "evaluate_late E now (p\<lparr>p_on_error := Closed\<rparr>) c v = evaluate_late E now (p\<lparr>p_on_error := Open\<rparr>) c v"
    using run_policy_irrelevant(2) [OF assms(2,3) evaluate_early_inv [OF e inv], of Closed now c Open]
    by (simp add: evaluate_late_def)
  then show "evaluate E now (p\<lparr>p_on_error := Closed\<rparr>) ctx w = evaluate E now (p\<lparr>p_on_error := Open\<rparr>) ctx w"
    by (simp add: evaluate_def pol split: waf_decision.split)
qed

text \<open>A build with the instances of the crates, no optional feature and no files, and a configuration
  for it with the built-in signatures.\<close>

definition winst ::
  "(hdrs, cidr, bucket_table, counter_cache, string list, string list, string, unit) waf_env" where
  "winst = \<lparr>e_deps = inst, e_match = minst, e_rule = rinst, e_iso_of = (\<lambda>_ _. None), f_fail2ban = True,
     f_geoip = False, f_remote = False, e_read = (\<lambda>_. Inl ''no file''), e_open_db = (\<lambda>_. Inl ''none''),
     e_sig_toml = (\<lambda>_. Inr []), e_rule_toml = (\<lambda>_. Inr []), e_client_ok = False, e_fetch = (\<lambda>_. None)\<rparr>"

definition sample_config :: "cidr config" where
  "sample_config =
     \<lparr>server = \<lparr>listen = \<lparr>sa_ip = V4 0, sa_port = 8080\<rparr>,
        upstream = \<lparr>u_scheme = Some ''http'', u_authority = Some ''127.0.0.1:9000'', u_path = ''/'',
          u_query = None, u_path_and_query = Some ''/''\<rparr>,
        client_ip_header = ''X-Forwarded-For'', trusted_peer = (V4 0x7F000000, 8), on_error = Closed,
        enforcement = EnforceBlock, upstream_timeout_secs = 30, timezone = [], pidfile = [],
        request_id_header = default_request_id_header\<rparr>,
      limits = \<lparr>max_uri_len = 100, max_header_count = 10, max_inspect_body = 1000\<rparr>,
      inspect_cfg = inspect_config_default,
      ratelimit = \<lparr>requests_per_sec = 5, rl_burst = 10, rl_ttl_secs = 60\<rparr>,
      reputation = \<lparr>blocklist = [(V4 9, 32)], blocklist_file = [], blocklist_urls = [], refresh_secs = 0,
        allowlist = [(V4 8, 32)], allowlist_file = []\<rparr>,
      metrics_cfg = \<lparr>metrics_listen = None\<rparr>, scoring = scoring_config_default,
      paths = \<lparr>rules_path = [], signatures_path = []\<rparr>,
      log_cfg = \<lparr>log_format = ''json'', audit_file = []\<rparr>,
      geoip = \<lparr>geo_enabled = False, db_path = [], allow_countries = [], block_countries = []\<rparr>\<rparr>"

lemma trim_Nil [simp]: "trim [] = []"
  by (simp add: trim_def)

lemma winst_starts:
  "\<exists>db. pipeline_from_config winst now sample_config =
     Inr (\<lparr>p_geo = None, p_sanity = \<lparr>ss_max_uri_len = 100, ss_max_header_count = 10\<rparr>, p_on_error = Closed\<rparr>,
       \<lparr>w_blocks = [block_perm (V4 9, 32)], w_allow = [block_perm (V4 8, 32)],
        w_limiter = limiter_new inst 5 10 60, w_db = db,
        w_rules = rules_stage_new inst
          (rules_empty\<lparr>threshold := 0, anomaly_status := 403, anomaly_msg := default_anomaly_msg\<rparr>)\<rparr>) \<and>
     db_compile inst minst builtin_signatures = Inr db"
proof -
  obtain db where db: "db_compile inst minst builtin_signatures = Inr db"
    using builtin_compiles by blast
  have "load_signatures winst sample_config = Inr db"
    by (simp add: load_signatures_def db_load_def db_builtin_def winst_def sample_config_def db)
  moreover have "parse_default_tz [] = Inr 0"
    by (simp add: parse_default_tz_def parse_tz_offset_def)
  ultimately have "pipeline_from_config winst now sample_config =
     Inr (\<lparr>p_geo = None, p_sanity = \<lparr>ss_max_uri_len = 100, ss_max_header_count = 10\<rparr>, p_on_error = Closed\<rparr>,
       \<lparr>w_blocks = [block_perm (V4 9, 32)], w_allow = [block_perm (V4 8, 32)],
        w_limiter = limiter_new inst 5 10 60, w_db = db,
        w_rules = rules_stage_new inst
          (rules_empty\<lparr>threshold := 0, anomaly_status := 403, anomaly_msg := default_anomaly_msg\<rparr>)\<rparr>)"
    unfolding pipeline_from_config_def
    by (simp add: build_blocks_def build_list_def sample_config_def load_rules_def rules_load_def
        apply_scoring_def scoring_config_default_def default_anomaly_status_def load_allowlist_def
        build_allowlist_def load_geo_def winst_def sanity_from_config_def ratelimit_from_config_def)
  with db show ?thesis by blast
qed

lemma winst_reachable:
  "\<exists>w. waf_reachable winst w \<and> w_blocks w = [block_perm (V4 9, 32)] \<and>
     db_compile inst minst builtin_signatures = Inr (w_db w) \<and>
     rules (w_rules w) = rules_empty\<lparr>threshold := 0, anomaly_status := 403, anomaly_msg := default_anomaly_msg\<rparr> \<and>
     w_limiter w = limiter_new inst 5 10 60 \<and> w_allow w = [block_perm (V4 8, 32)]"
proof -
  obtain db where "pipeline_from_config winst 0 sample_config =
     Inr (\<lparr>p_geo = None, p_sanity = \<lparr>ss_max_uri_len = 100, ss_max_header_count = 10\<rparr>, p_on_error = Closed\<rparr>,
       \<lparr>w_blocks = [block_perm (V4 9, 32)], w_allow = [block_perm (V4 8, 32)],
        w_limiter = limiter_new inst 5 10 60, w_db = db,
        w_rules = rules_stage_new inst
          (rules_empty\<lparr>threshold := 0, anomaly_status := 403, anomaly_msg := default_anomaly_msg\<rparr>)\<rparr>)"
    (is "_ = Inr (?p, ?w)") and db: "db_compile inst minst builtin_signatures = Inr db"
    using winst_starts [of 0] by blast
  then have "waf_reachable winst ?w"
    by (intro reach_init [of winst winst 0 sample_config ?p]) (simp_all add: same_build_def)
  with db show ?thesis by (intro exI [of _ ?w]) (simp add: rules_stage_new_def)
qed

lemma winst_sel [simp]: "e_deps winst = inst" "e_match winst = minst" "e_rule winst = rinst"
  by (simp_all add: winst_def)

theorem reachable_never_panics_witness:
  "\<exists>w. waf_reachable winst w \<and>
     (\<forall>st\<in>set (early_stages winst 5 \<lparr>p_geo = None, p_sanity = sanity_from_config (limits sample_config),
        p_on_error = Closed\<rparr> @ late_stages winst 5). \<forall>c s. st c w \<noteq> Panic s)"
proof -
  obtain w where w: "waf_reachable winst w" using winst_reachable by blast
  have "aho_laws (e_match winst)" "rset_laws (e_match winst)" by (simp_all add: minst_laws)
  from reachable_never_panics [OF w this] w show ?thesis by blast
qed

lemma rule_step_allow:
  "rule_step D R now ctx r score st = (Some (OutAllow i), x) \<Longrightarrow>
     r_action r = AAllow \<and> r_id r = i \<and> rule_applies D R now ctx st r"
  by (auto simp: rule_step_def split: if_splits action.splits prod.splits option.splits)

lemma rules_loop_allow:
  "fst (rules_loop D R now ctx rs score st) = Some (OutAllow i) \<Longrightarrow>
     \<exists>r\<in>set rs. r_action r = AAllow \<and> r_id r = i \<and> (\<exists>st'. rule_applies D R now ctx st' r)"
proof (induction rs arbitrary: score st)
  case (Cons r rs)
  obtain d r' s st' where step: "rule_step D R now ctx r score st = (d, r', s, st')"
    using prod_cases4 by blast
  show ?case
  proof (cases d)
    case None
    with Cons.prems step have "fst (rules_loop D R now ctx rs s st') = Some (OutAllow i)"
      by (simp split: prod.splits)
    with Cons.IH show ?thesis by force
  next
    case (Some o')
    with Cons.prems step have "o' = OutAllow i" by simp
    with step Some rule_step_allow show ?thesis by (metis list.set_intros(1))
  qed
qed simp

lemma rules_inspect_allow:
  assumes "rules_inspect D R now c v = Ret (Break Allow) s"
  shows "\<exists>r\<in>set (req_rules (rules v)). r_action r = AAllow \<and> (\<exists>st'. rule_applies D R now c st' r)"
proof -
  let ?st = "\<lparr>log_hits = Some (stage_log_hits v), counters = stage_counters v\<rparr>"
  obtain d rs' sc st' where l: "rules_loop D R now c (req_rules (rules v)) 0 ?st = (d, rs', sc, st')"
    using prod_cases4 by blast
  have "\<exists>i. d = Some (OutAllow i)"
    using assms
    by (auto simp: rules_inspect_def evaluate_counting_def evaluate_inner_def l
        split: option.splits outcome.splits if_splits)
  then obtain i where "fst (rules_loop D R now c (req_rules (rules v)) 0 ?st) = Some (OutAllow i)"
    using l by auto
  from rules_loop_allow [OF this] show ?thesis by metis
qed

text \<open>C3: what it means that a request is let through. On a compiled database, a request the whole
  pipeline allows comes from an address that is not on the block list and not of a refused country and
  that is within its rate, has a URI, a header count and a content length within the limits, and
  unless an \<open>allow\<close> rule matched it, no signature matches its normalised path, query and body.\<close>

theorem allowed_request_is_clean:
  assumes "aho_laws (e_match E)" "rset_laws (e_match E)"
    and "db_compile (e_deps E) (e_match E) sigs = Inr (w_db w)"
    and "evaluate E now p ctx w = (Allow, ctx', w')"
  shows "\<not> blocks_contain (e_deps E) now (w_blocks w) (ip (rq_client ctx)) \<and>
    geo_permits E p (ip (rq_client ctx)) \<and>
    fst (limiter_check (e_deps E) now (w_limiter w) (ip (rq_client ctx))) = None \<and>
    uri_len ctx \<le> ss_max_uri_len (p_sanity p) \<and>
    hm_len (e_deps E) (rq_headers ctx) \<le> ss_max_header_count (p_sanity p) \<and>
    (\<forall>cl. hm_get (e_deps E) (rq_headers ctx) ''content-length'' = Some cl \<longrightarrow> content_length_ok (e_deps E) cl) \<and>
    ((\<exists>r\<in>set (req_rules (rules (w_rules w))). \<exists>c st. ctx_frame ctx c \<and> r_action r = AAllow \<and>
        rule_applies (e_deps E) (e_rule E) now c st r) \<or>
     (\<forall>s\<in>set sigs. \<not> sig_matches (e_match E) s (haystack (ctx\<lparr>rq_normalized := normalized_default\<rparr>))))"
proof -
  obtain c v where e: "evaluate_early E now p ctx w = (Allow, c, v)"
    and l: "evaluate_late E now p c v = (Allow, ctx', w')"
    using assms(4) by (auto simp: evaluate_def split: prod.splits waf_decision.splits)
  note early = early_allow [OF e]
  have db: "db_compile (e_deps E) (e_match E) sigs = Inr (w_db v)" and rules: "w_rules v = w_rules w"
    using assms(3) early(3) by auto
  have frame: "ctx_frame ctx c"
    using run_frame [OF early_stages_waf [of E now p], of ctx "p_on_error p" w] e
    by (simp add: evaluate_early_def)
  have hay: "haystack c = haystack (ctx\<lparr>rq_normalized := normalized_default\<rparr>)"
    unfolding early(4) haystack_normalized
    by (subst (1 2) haystack_parts) (simp_all add: normalized_default_def geo_stamp_def split: option.split)
  have sane: "uri_len ctx \<le> ss_max_uri_len (p_sanity p)"
    "hm_len (e_deps E) (rq_headers ctx) \<le> ss_max_header_count (p_sanity p)"
    "\<forall>cl. hm_get (e_deps E) (rq_headers ctx) ''content-length'' = Some cl \<longrightarrow> content_length_ok (e_deps E) cl"
    using early(5) [rule_format, of "()"] sanity_continue_iff [of "e_deps E" "p_sanity p" "geo_stamp E p ctx" "()"]
    by (auto simp: content_length_ok_def)
  obtain f s g where late: "rules_inspect (e_deps E) (e_rule E) now c (w_rules v) = Ret f (c, s)"
    "g = Continue \<longleftrightarrow> (\<forall>s\<in>set sigs. \<not> sig_matches (e_match E) s (haystack c))" "g \<noteq> Break Allow"
    "(case f of Break d \<Rightarrow> (d, c, v\<lparr>w_rules := s\<rparr>)
      | Continue \<Rightarrow> (case g of Break d \<Rightarrow> (d, c, v\<lparr>w_rules := s\<rparr>) | Continue \<Rightarrow> (Allow, c, v\<lparr>w_rules := s\<rparr>))) =
     (Allow, ctx', w')"
    using run_late [OF assms(1,2) db, of now c] l unfolding evaluate_late_def by metis
  then consider "f = Break Allow" | "g = Continue"
    by (auto split: control_flow.splits)
  then have "(\<exists>r\<in>set (req_rules (rules (w_rules w))). \<exists>c st. ctx_frame ctx c \<and> r_action r = AAllow \<and>
        rule_applies (e_deps E) (e_rule E) now c st r) \<or>
     (\<forall>s\<in>set sigs. \<not> sig_matches (e_match E) s (haystack (ctx\<lparr>rq_normalized := normalized_default\<rparr>)))"
    using late(1,2) rules_inspect_allow [of "e_deps E" "e_rule E" now c "w_rules v"] frame hay
    by cases (auto simp: rules)
  with early(1-3) sane show ?thesis by auto
qed

definition sample_pipeline :: "unit pipeline" where
  "sample_pipeline = \<lparr>p_geo = None, p_sanity = sanity_from_config (limits sample_config), p_on_error = Closed\<rparr>"

lemma builtin_clean: "\<forall>s\<in>set builtin_signatures. \<not> sig_matches minst s ''/''"
proof -
  have "list_all (\<lambda>s. \<not> sig_matches minst s ''/'') builtin_signatures"
    by code_simp
  then show ?thesis by (simp add: list_all_iff)
qed

lemma no_rules_continue:
  "req_rules (rules v) = [] \<Longrightarrow>
     \<exists>s. rules_inspect D R now c v = Ret Continue (c, s) \<and> resp_rules (rules s) = resp_rules (rules v)"
  by (auto simp: rules_inspect_def evaluate_counting_def evaluate_inner_def)

lemma winst_allows:
  "\<exists>w ctx' w'. waf_reachable winst w \<and> db_compile inst minst builtin_signatures = Inr (w_db w) \<and>
     w_allow w = [block_perm (V4 8, 32)] \<and> resp_rules (rules (w_rules w')) = [] \<and>
     evaluate winst 5 sample_pipeline (get_request (V4 7) ''/'' None) w = (Allow, ctx', w')"
proof -
  let ?ctx = "get_request (V4 7) ''/'' None"
  obtain w where w: "waf_reachable winst w" "w_blocks w = [block_perm (V4 9, 32)]"
    "db_compile inst minst builtin_signatures = Inr (w_db w)" "w_limiter w = limiter_new inst 5 10 60"
    "rules (w_rules w) = rules_empty\<lparr>threshold := 0, anomaly_status := 403, anomaly_msg := default_anomaly_msg\<rparr>"
    "w_allow w = [block_perm (V4 8, 32)]"
    using winst_reachable by blast
  obtain l where l: "limiter_check inst 5 (w_limiter w) (V4 7) = (None, l)"
    by (simp add: w limiter_check_def limiter_new_def b_check_def)
  have out: "\<not> blocks_contain inst 5 (w_blocks w) (V4 7)"
    by (simp add: w blocks_contain_iff block_perm_def n_contains_def)
  obtain c where early: "evaluate_early winst 5 sample_pipeline ?ctx w = (Allow, c, w\<lparr>w_limiter := l\<rparr>)"
    and c: "c = fst (stage_state (normalize_inspect ?ctx ()))"
    using out l
    by (simp add: evaluate_early_def run_early sample_pipeline_def geo_permits_def geo_stamp_def
        get_request_def sanity_inspect_def uri_len_def sanity_from_config_def sample_config_def h_get_def)
  have "haystack c = ''/''"
    unfolding c haystack_normalized
    by (simp add: haystack_def get_request_def normalized_default_def) code_simp
  then have "\<forall>s\<in>set builtin_signatures. \<not> sig_matches minst s (haystack c)"
    using builtin_clean by simp
  moreover obtain s where "rules_inspect inst rinst 5 c (w_rules (w\<lparr>w_limiter := l\<rparr>)) = Ret Continue (c, s)"
    and s: "resp_rules (rules s) = []"
    using no_rules_continue [of "w_rules (w\<lparr>w_limiter := l\<rparr>)" inst rinst 5 c] w(5)
    by (auto simp: rules_empty_def)
  ultimately have "evaluate_late winst 5 sample_pipeline c (w\<lparr>w_limiter := l\<rparr>) =
      (Allow, c, w\<lparr>w_limiter := l, w_rules := s\<rparr>)"
    using run_late [of winst builtin_signatures "w\<lparr>w_limiter := l\<rparr>" 5 c] minst_laws w(3)
    by (auto simp: evaluate_late_def split: control_flow.splits)
  with early w s show ?thesis by (auto simp: evaluate_def)
qed

theorem allowed_request_is_clean_witness:
  "\<exists>w. waf_reachable winst w \<and> \<not> blocks_contain inst 5 (w_blocks w) (V4 7) \<and>
     fst (limiter_check inst 5 (w_limiter w) (V4 7)) = None"
proof -
  obtain w ctx' w' where w: "waf_reachable winst w"
    "db_compile inst minst builtin_signatures = Inr (w_db w)"
    "evaluate winst 5 sample_pipeline (get_request (V4 7) ''/'' None) w = (Allow, ctx', w')"
    using winst_allows by blast
  have "aho_laws (e_match winst)" "rset_laws (e_match winst)"
    "db_compile (e_deps winst) (e_match winst) builtin_signatures = Inr (w_db w)"
    using minst_laws w by simp_all
  from allowed_request_is_clean [OF this w(3)] w(1) show ?thesis
    by (auto simp: get_request_def)
qed

text \<open>C32: a refused address costs nothing. A request from an address on the block list is answered with
  403 by the whole pipeline, with the request and every piece of shared state as they were: it takes no
  token from the rate limiter and reaches no rule, no counter and no signature. An address whose country
  is refused is answered with 403 as well and changes no shared state.\<close>

theorem refused_address_changes_nothing:
  "(blocks_contain (e_deps E) now (w_blocks w) (ip (rq_client ctx)) \<longrightarrow>
      evaluate E now p ctx w = (Block ''reputation.blocklist'' 403 ''source IP is blocklisted'', ctx, w)) \<and>
   (\<not> blocks_contain (e_deps E) now (w_blocks w) (ip (rq_client ctx)) \<and> p_geo p = Some g \<and>
      \<not> country_decision (geo_lookup (e_iso_of E) g (ip (rq_client ctx))) (gs_allow g) (gs_block g) \<longrightarrow>
      (\<exists>ctx'. evaluate E now p ctx w = (Block ''geoip.country'' 403 ''source country not permitted'', ctx', w)))"
  by (simp add: evaluate_def evaluate_early_def run_early geo_permits_def)

theorem refused_address_changes_nothing_witness:
  "\<exists>w. waf_reachable winst w \<and> evaluate winst 5 sample_pipeline (get_request (V4 9) ''/'' None) w =
     (Block ''reputation.blocklist'' 403 ''source IP is blocklisted'', get_request (V4 9) ''/'' None, w)"
proof -
  obtain w where "waf_reachable winst w" "w_blocks w = [block_perm (V4 9, 32)]"
    using winst_reachable by blast
  moreover from this have "blocks_contain inst 5 (w_blocks w) (V4 9)"
    by (simp add: blocks_contain_iff block_perm_def active_def n_contains_def)
  ultimately show ?thesis
    using refused_address_changes_nothing
      [of winst 5 w "get_request (V4 9) ''/'' None" sample_pipeline undefined]
    by (auto simp: get_request_def)
qed

text \<open>Reload is all or nothing. When any part of the new configuration fails to load, the running
  state stays as it was, with the error of the first part that failed; otherwise the signatures, the
  rules and the allow list are the new ones together, and the block list, the rate limiter, the counters
  and the log-match count go on unchanged. Refreshing replaces the block list and nothing else.\<close>

lemma reload_atomic:
  "(case reload_apply E now cfg w of
     (Some e, w') \<Rightarrow> w' = w \<and>
       (load_signatures E cfg = Inl e \<or> parse_default_tz (timezone (server cfg)) = Inl e \<or>
        (\<exists>tz. load_rules E cfg tz = Inl e) \<or> load_allowlist E now cfg = Inl e)
   | (None, w') \<Rightarrow>
       (\<exists>tz. load_signatures E cfg = Inr (w_db w') \<and> parse_default_tz (timezone (server cfg)) = Inr tz \<and>
          load_rules E cfg tz = Inr (rules (w_rules w')) \<and> load_allowlist E now cfg = Inr (w_allow w')) \<and>
       w_blocks w' = w_blocks w \<and> w_limiter w' = w_limiter w \<and>
       stage_counters (w_rules w') = stage_counters (w_rules w) \<and>
       stage_log_hits (w_rules w') = stage_log_hits (w_rules w)) \<and>
   (case refresh_blocklist E now cfg w of
     (Some e, w') \<Rightarrow> w' = w
   | (None, w') \<Rightarrow> w' = w\<lparr>w_blocks := w_blocks w'\<rparr>)"
  by (auto simp: reload_apply_def refresh_blocklist_def Let_def split: sum.split)

end
