(* ===== verification/Request_Id.thy ===== *)
theory Request_Id
  imports Common Instances
begin

text \<open>
  \<open>crates/budu-proxy/src/reqid.rs\<close>: correlation ids. The seed, mixed once per process by the standard
  library's hasher from the time, the process id and an address, is an argument; the counter is the
  state, and \<open>fetch_add\<close> wraps. Shown: an id is always a short token of safe characters, it is the
  inbound one exactly when that is such a token, and the generated ones do not repeat before the
  counter wraps.
\<close>

text \<open>\<open>{:016x}\<close> of a 64-bit number: sixteen lower-case hexadecimal digits.\<close>

fun hex_pad :: "nat \<Rightarrow> nat \<Rightarrow> string" where
  "hex_pad 0 n = []"
| "hex_pad (Suc k) n = hex_pad k (n div 16) @ [hex_digit (n mod 16)]"

definition generate :: "u64 \<Rightarrow> u64 \<Rightarrow> string \<times> u64" where
  "generate seed n = (hex_pad 16 (unat seed) @ hex_pad 16 (unat n), n + 1)"

definition id_char :: "char \<Rightarrow> bool" where
  "id_char b \<longleftrightarrow> is_ascii_alphanumeric b \<or> b \<in> {CHR ''-'', CHR ''_'', CHR ''.'', CHR '':''}"

definition sanitize :: "string \<Rightarrow> string option" where
  "sanitize s0 =
     (let s = trim s0 in
      if s = [] \<or> length s > 128 then None
      else if list_all id_char s then Some s else None)"

definition resolve :: "('h, 'z) http_deps_scheme \<Rightarrow> u64 \<Rightarrow> 'h \<Rightarrow> string \<Rightarrow> u64 \<Rightarrow> string \<times> u64" where
  "resolve D seed headers header_name n =
     (if header_name \<noteq> [] then
        (case Option.bind (header_str D headers header_name) sanitize of
           Some clean \<Rightarrow> (clean, n)
         | None \<Rightarrow> generate seed n)
      else generate seed n)"

text \<open>The ids of \<open>k\<close> successive calls.\<close>

fun generate_many :: "u64 \<Rightarrow> u64 \<Rightarrow> nat \<Rightarrow> string list" where
  "generate_many seed n 0 = []"
| "generate_many seed n (Suc k) = (case generate seed n of (i, n') \<Rightarrow> i # generate_many seed n' k)"

section \<open>Lemmas\<close>

lemma length_hex_pad [simp]: "length (hex_pad k n) = k"
  by (induction k arbitrary: n) simp_all

lemma hex_digit_inject: "a < 16 \<Longrightarrow> b < 16 \<Longrightarrow> hex_digit a = hex_digit b \<longleftrightarrow> a = b"
  by (auto simp: hex_digit_def bv_inject [symmetric] bv_char_of split: if_splits)

lemma hex_pad_inject: "m < 16 ^ k \<Longrightarrow> n < 16 ^ k \<Longrightarrow> hex_pad k m = hex_pad k n \<longleftrightarrow> m = n"
proof (induction k arbitrary: m n)
  case (Suc k)
  have "m div 16 < 16 ^ k" "n div 16 < 16 ^ k"
    using Suc.prems by (simp_all add: less_mult_imp_div_less mult.commute)
  with Suc.IH show ?case
    by (simp add: hex_digit_inject) (metis div_mult_mod_eq)
qed simp

lemma hex_digit_id_char: "d < 16 \<Longrightarrow> id_char (hex_digit d)"
  by (auto simp: id_char_def hex_digit_def is_ascii_alphanumeric_def is_ascii_digit_def
      is_ascii_lower_def bv_char_of)

lemma hex_pad_id_char: "list_all id_char (hex_pad k n)"
  by (induction k arbitrary: n) (simp_all add: hex_digit_id_char)

lemma hex_pad_u64_inject: "hex_pad 16 (unat (a :: u64)) = hex_pad 16 (unat b) \<longleftrightarrow> a = b"
proof -
  have "unat a < 16 ^ 16" "unat b < 16 ^ 16"
    using unsigned_less [of a] unsigned_less [of b] by simp_all
  then show ?thesis using hex_pad_inject by (metis word_eq_iff_unsigned)
qed

lemma generate_many_nth:
  "i < k \<Longrightarrow> generate_many seed n k ! i = hex_pad 16 (unat seed) @ hex_pad 16 (unat (n + of_nat i))"
proof (induction k arbitrary: n i)
  case (Suc k)
  then show ?case by (cases i) (simp_all add: generate_def add.assoc)
qed simp

lemma length_generate_many [simp]: "length (generate_many seed n k) = k"
  by (induction k arbitrary: n) (simp_all add: generate_def)

lemma sanitize_Some_iff:
  "sanitize s = Some i \<longleftrightarrow> i = trim s \<and> i \<noteq> [] \<and> length i \<le> 128 \<and> list_all id_char i"
  by (auto simp: sanitize_def Let_def)

lemma generate_id:
  "generate seed n = (i, n') \<Longrightarrow> length i = 32 \<and> list_all id_char i \<and> n' = n + 1"
  by (auto simp: generate_def hex_pad_id_char)

lemma resolve_cases:
  assumes "resolve D seed h name n = (i, n')"
  obtains (inbound) v where "name \<noteq> []" "header_str D h name = Some v" "i = trim v" "n' = n"
      "i \<noteq> []" "length i \<le> 128" "list_all id_char i"
  | (fresh) "generate seed n = (i, n')" "name \<noteq> [] \<longrightarrow> Option.bind (header_str D h name) sanitize = None"
  using assms
  by (auto simp: resolve_def sanitize_Some_iff split: if_splits option.splits bind_splits)

lemma resolve_safe:
  assumes "resolve D seed h name n = (i, n')"
  shows "i \<noteq> [] \<and> length i \<le> 128 \<and> list_all id_char i"
  using assms
proof (cases rule: resolve_cases)
  case fresh
  then show ?thesis using generate_id by fastforce
qed auto

section \<open>Properties\<close>

text \<open>C34: request ids are safe to log and to forward, and identify. Whatever the client sends, the id
  of a request has between 1 and 128 characters, all of them letters, digits, \<open>-\<close>, \<open>_\<close>, \<open>.\<close> or \<open>:\<close>;
  it is the client's own (trimmed) exactly when that is such a token and the header is configured, and
  otherwise one of 32 characters; and up to \<open>2 ^ 64\<close> successively generated ids are all different.\<close>

theorem request_id_safe_unique:
  assumes "resolve D seed h name n = (i, n')" "k \<le> 2 ^ 64"
  shows "1 \<le> length i \<and> length i \<le> 128 \<and> list_all id_char i \<and>
    (if name \<noteq> [] \<and> (\<exists>v. header_str D h name = Some v \<and> trim v \<noteq> [] \<and> length (trim v) \<le> 128 \<and>
        list_all id_char (trim v))
     then Some i = map_option trim (header_str D h name) \<and> n' = n
     else length i = 32 \<and> n' = n + 1) \<and>
    distinct (generate_many seed n k)"
proof -
  have inj: "(of_nat x :: u64) = of_nat y \<longleftrightarrow> x = y" if "x < k" "y < k" for x y
    using that assms(2) by (simp add: word_of_nat_eq_iff take_bit_eq_mod)
  have "distinct (generate_many seed n k)"
    by (simp add: distinct_conv_nth generate_many_nth hex_pad_u64_inject inj)
  moreover have "if name \<noteq> [] \<and> (\<exists>v. header_str D h name = Some v \<and> trim v \<noteq> [] \<and> length (trim v) \<le> 128 \<and>
        list_all id_char (trim v))
     then Some i = map_option trim (header_str D h name) \<and> n' = n
     else length i = 32 \<and> n' = n + 1"
    using assms(1)
  proof (cases rule: resolve_cases)
    case fresh
    then show ?thesis
      using generate_id [of seed n i n'] by (auto simp: bind_eq_None_conv sanitize_def Let_def)
  qed auto
  ultimately show ?thesis using resolve_safe [OF assms(1)] by (simp add: Suc_le_eq)
qed

theorem request_id_safe_unique_witness:
  "fst (resolve inst 7 [(''x-request-id'', ''edge-1'')] ''X-Request-Id'' 0) = ''edge-1'' \<and>
   distinct (generate_many 7 0 1000)"
proof -
  have ok: "header_str inst [(''x-request-id'', ''edge-1'')] ''X-Request-Id'' = Some ''edge-1''"
    by (simp add: header_str_def) code_simp
  have t: "trim ''edge-1'' = ''edge-1''" "list_all id_char ''edge-1''" by code_simp+
  obtain i n' where r: "resolve inst 7 [(''x-request-id'', ''edge-1'')] ''X-Request-Id'' 0 = (i, n')"
    by (cases "resolve inst 7 [(''x-request-id'', ''edge-1'')] ''X-Request-Id'' 0") blast
  have "(1000::nat) \<le> 2 ^ 64" by simp
  from request_id_safe_unique [OF r this, unfolded ok] show ?thesis using t by (simp add: r)
qed

end
