(* ===== verification/Proxy.thy ===== *)
theory Proxy
  imports Pipeline Request_Id
begin

text \<open>
  \<open>crates/budu-proxy/src/lib.rs\<close>: the handling of one request, from its head to the response. A body
  is the list of its frames, up to the end or the first read error. What a request shares with the
  others is \<open>proxy_state\<close>: the inspection state, the counters, the id counter, the audit log, and the
  requests handed to the upstream client. At an \<open>await\<close> other requests, reloads and maintenance may
  run: each such point applies an arbitrary state change of the environment \<open>proxy_env\<close>, which also holds
  the third-party operations (\<open>http-body-util\<close>'s limited collect, \<open>http\<close>'s URI builder, \<open>hyper\<close>'s client
  with its timeout) and the clock readings. Accepting connections and the HTTP/1 codec (tokio, hyper)
  are outside the model. Shown: which address a request is judged by, what is forwarded and
  what was inspected of it, what detection mode does, the counters, and the response phase.
\<close>

section \<open>Messages, state and environment\<close>

datatype frame = DataFrame bytes | TrailersFrame | ReadFailed string

datatype resp_body = Streamed "frame list" | FullBody bytes

record ('h, 'b) http_request =
  hr_method :: string
  hr_uri :: uri
  hr_headers :: 'h
  hr_body :: 'b

record ('h, 'b) http_response =
  hp_status :: u16
  hp_headers :: 'h
  hp_body :: 'b

record audit_record =
  au_request_id :: string
  au_client_ip :: ip_addr
  au_method :: string
  au_path :: string
  au_rule_id :: string
  au_status :: u16
  au_reason :: "string option"
  au_retry :: "u32 option"
  au_enforced :: bool
  au_message :: string

record ('h, 'n, 'b, 'c, 'a, 'r, 're) proxy_state =
  ps_waf :: "('n, 'b, 'c, 'a, 'r, 're) waf_state"
  ps_metrics :: metrics
  ps_counter :: u64
  ps_audit :: "audit_record list"
  ps_sent :: "('h, resp_body) http_request list"

datatype 'h upstream_reply = Elapsed | RequestFailed string | Replied "('h, frame list) http_response"

record ('h, 's) proxy_env =
  px_collect :: "nat \<Rightarrow> frame list \<Rightarrow> bytes option"
  px_uri_build :: "string option \<Rightarrow> string \<Rightarrow> string \<Rightarrow> string + uri"
  px_request :: "u64 \<Rightarrow> ('h, resp_body) http_request \<Rightarrow> 'h upstream_reply"
  px_seed :: u64
  clk_allow :: u64
  clk_early :: u64
  clk_late :: u64
  clk_response :: u64
  aw_body :: "'s \<Rightarrow> 's"
  aw_upstream :: "'s \<Rightarrow> 's"
  aw_response :: "'s \<Rightarrow> 's"

datatype forward_error = Timeout | Upstream string

section \<open>The body gate and the client address\<close>

definition media_type_listed :: "('h, 'z) http_deps_scheme \<Rightarrow> 'h \<Rightarrow> string list \<Rightarrow> bool" where
  "media_type_listed D headers types =
     (case header_str D headers ''content-type'' of
        None \<Rightarrow> False
      | Some v \<Rightarrow> list_ex (\<lambda>t. starts_with (to_ascii_lowercase t) (to_ascii_lowercase v)) types)"

definition should_inspect_body ::
  "('h, 'z) http_deps_scheme \<Rightarrow> 'n config \<Rightarrow> ('h, 'x) http_request \<Rightarrow> bool" where
  "should_inspect_body D cfg parts =
     (if hr_method parts \<notin> {''POST'', ''PUT'', ''PATCH''} then False
      else media_type_listed D (hr_headers parts) (content_types (inspect_cfg cfg)))"

definition response_body_inspectable :: "('h, 'z) http_deps_scheme \<Rightarrow> 'n config \<Rightarrow> 'h \<Rightarrow> bool" where
  "response_body_inspectable D cfg headers =
     media_type_listed D headers (response_content_types (inspect_cfg cfg))"

definition declared_len_over :: "('h, 'z) http_deps_scheme \<Rightarrow> 'h \<Rightarrow> nat \<Rightarrow> bool" where
  "declared_len_over D headers mx =
     (case header_str D headers ''content-length'' of
        None \<Rightarrow> False
      | Some s \<Rightarrow> (case parse_u64 (trim s) of None \<Rightarrow> False | Some len \<Rightarrow> mx < len))"

definition body_too_large :: waf_decision where
  "body_too_large = Block ''bodygate.too_large'' 413 ''request body exceeds inspection limit''"

definition resolve_client ::
  "('h, 'n, 'z) net_deps_scheme \<Rightarrow> 'n config \<Rightarrow> 'h \<Rightarrow> ip_addr \<Rightarrow> client_info" where
  "resolve_client D cfg headers peer_ip =
     (let trusted = net_contains D (trusted_peer (server cfg)) peer_ip;
          a = (if trusted then
                 (case header_str D headers (client_ip_header (server cfg)) of
                    None \<Rightarrow> peer_ip
                  | Some s \<Rightarrow> unwrap_or (parse_ip (trim (hd (split_char (CHR '','') s)))) peer_ip)
               else peer_ip)
      in \<lparr>ip = a, geo = None\<rparr>)"

section \<open>Responses of the proxy itself\<close>

definition error_response ::
  "('h, 'z) http_deps_scheme \<Rightarrow> u16 \<Rightarrow> string \<Rightarrow> ('h, resp_body) http_response" where
  "error_response D status msg =
     \<lparr>hp_status = status,
      hp_headers = hm_insert D (hm_new D) ''content-type'' ''text/plain; charset=utf-8'',
      hp_body = FullBody (msg @ [nl])\<rparr>"

definition decision_response ::
  "('h, 'z) http_deps_scheme \<Rightarrow> waf_decision \<Rightarrow> ('h, resp_body) http_response" where
  "decision_response D d = (case d of
     Block _ status why \<Rightarrow> error_response D status why
   | RateLimited retry \<Rightarrow>
       (let resp = error_response D 429 ''rate limit exceeded''; v = show_nat (unat retry) in
        if hvalue_ok D v then resp\<lparr>hp_headers := hm_insert D (hp_headers resp) ''retry-after'' v\<rparr> else resp)
   | Allow \<Rightarrow> error_response D 500 ''internal error'')"

definition audit_decision ::
  "ip_addr \<Rightarrow> string \<Rightarrow> string \<Rightarrow> waf_decision \<Rightarrow> bool \<Rightarrow> string \<Rightarrow> audit_record list" where
  "audit_decision a meth path d enforced i = (case d of
     Block rid status why \<Rightarrow>
       [\<lparr>au_request_id = i, au_client_ip = a, au_method = meth, au_path = path, au_rule_id = rid,
         au_status = status, au_reason = Some why, au_retry = None, au_enforced = enforced,
         au_message = (if enforced then ''blocked'' else ''detected'')\<rparr>]
   | RateLimited retry \<Rightarrow>
       [\<lparr>au_request_id = i, au_client_ip = a, au_method = meth, au_path = path, au_rule_id = ''ratelimit'',
         au_status = 429, au_reason = None, au_retry = Some retry, au_enforced = enforced,
         au_message = ''rate_limited''\<rparr>]
   | Allow \<Rightarrow> [])"

definition set_request_id :: "('h, 'z) http_deps_scheme \<Rightarrow> string \<Rightarrow> string \<Rightarrow> 'h \<Rightarrow> 'h" where
  "set_request_id D header_name i headers =
     (if header_name = [] then headers
      else if hname_ok D header_name \<and> hvalue_ok D i then hm_insert D headers header_name i
      else headers)"

section \<open>Forwarding\<close>

definition hop_by_hop :: "string list" where
  "hop_by_hop = [''connection'', ''keep-alive'', ''proxy-authenticate'', ''proxy-authorization'', ''te'',
     ''trailer'', ''transfer-encoding'', ''upgrade'']"

definition connection_listed :: "('h, 'z) http_deps_scheme \<Rightarrow> 'h \<Rightarrow> string list" where
  "connection_listed D headers =
     (case header_str D headers ''connection'' of
        None \<Rightarrow> []
      | Some v \<Rightarrow> filter (\<lambda>s. s \<noteq> []) (map (\<lambda>s. to_ascii_lowercase (trim s)) (split_char (CHR '','') v)))"

definition sanitize_forward_headers :: "('h, 'z) http_deps_scheme \<Rightarrow> nat option \<Rightarrow> 'h \<Rightarrow> 'h" where
  "sanitize_forward_headers D buffered_len headers =
     (let listed = connection_listed D headers;
          h1 = foldl (hm_remove D) headers listed;
          h2 = foldl (hm_remove D) h1 hop_by_hop
      in case buffered_len of
           None \<Rightarrow> h2
         | Some len \<Rightarrow> hm_insert D (hm_remove D h2 ''content-length'') ''content-length'' (show_nat len))"

definition rewrite_uri ::
  "(string option \<Rightarrow> string \<Rightarrow> string \<Rightarrow> string + uri) \<Rightarrow> uri \<Rightarrow> uri \<Rightarrow> string + uri" where
  "rewrite_uri build up orig =
     (case u_authority up of
        None \<Rightarrow> Inl ''upstream has no authority''
      | Some authority \<Rightarrow>
          (case build (u_scheme up) authority (unwrap_or (u_path_and_query orig) ''/'') of
             Inl e \<Rightarrow> Inl (''building upstream uri: '' @ e)
           | Inr u \<Rightarrow> Inr u))"

definition forward ::
  "('h, 'z) http_deps_scheme \<Rightarrow> ('h, ('h, 'n, 'b, 'c, 'a, 'r, 're) proxy_state) proxy_env \<Rightarrow> 'n config \<Rightarrow>
     ('h, resp_body) http_request \<Rightarrow> nat option \<Rightarrow> ('h, 'n, 'b, 'c, 'a, 'r, 're) proxy_state \<Rightarrow>
     (forward_error + ('h, frame list) http_response) \<times> ('h, 'n, 'b, 'c, 'a, 'r, 're) proxy_state" where
  "forward D X cfg parts buffered_len s =
     (case rewrite_uri (px_uri_build X) (upstream (server cfg)) (hr_uri parts) of
        Inl e \<Rightarrow> (Inl (Upstream e), s)
      | Inr u \<Rightarrow>
          (let out = parts\<lparr>hr_uri := u,
                 hr_headers := sanitize_forward_headers D buffered_len (hr_headers parts)\<rparr>;
               s1 = aw_upstream X (s\<lparr>ps_sent := ps_sent s @ [out]\<rparr>)
           in case px_request X (upstream_timeout_secs (server cfg)) out of
                Elapsed \<Rightarrow> (Inl Timeout, s1)
              | RequestFailed e \<Rightarrow> (Inl (Upstream (''upstream request: '' @ e)), s1)
              | Replied resp \<Rightarrow> (Inr resp, s1)))"

definition on_forward_error ::
  "('h, 'z) http_deps_scheme \<Rightarrow> forward_error \<Rightarrow> ('h, 'n, 'b, 'c, 'a, 'r, 're) proxy_state \<Rightarrow>
     ('h, resp_body) http_response \<times> ('h, 'n, 'b, 'c, 'a, 'r, 're) proxy_state" where
  "on_forward_error D err s =
     (case err of
        Timeout \<Rightarrow> error_response D 504 ''upstream timeout''
      | Upstream _ \<Rightarrow> error_response D 502 ''upstream unavailable'',
      s\<lparr>ps_metrics := m_upstream_error (ps_metrics s)\<rparr>)"

section \<open>Deciding\<close>

definition act_on ::
  "('h, 'z) http_deps_scheme \<Rightarrow> waf_decision \<Rightarrow> bool \<Rightarrow> ip_addr \<Rightarrow> string \<Rightarrow> string \<Rightarrow> string \<Rightarrow>
     ('h, 'n, 'b, 'c, 'a, 'r, 're) proxy_state \<Rightarrow>
     ('h, resp_body) http_response option \<times> ('h, 'n, 'b, 'c, 'a, 'r, 're) proxy_state" where
  "act_on D d detect a meth path i s =
     (case d of
        Allow \<Rightarrow> (None, s)
      | _ \<Rightarrow>
          if detect \<and> (case d of Block _ _ _ \<Rightarrow> True | _ \<Rightarrow> False) then
            (None, s\<lparr>ps_metrics := m_would_block (ps_metrics s),
                     ps_audit := ps_audit s @ audit_decision a meth path d False i\<rparr>)
          else
            (Some (decision_response D d),
             s\<lparr>ps_metrics := m_record d (ps_metrics s),
               ps_audit := ps_audit s @ audit_decision a meth path d True i\<rparr>))"

section \<open>The response phase\<close>

text \<open>The loop over the frames: the body, or the message of the 502 answer.\<close>

fun buffer_frames :: "nat \<Rightarrow> frame list \<Rightarrow> bytes \<Rightarrow> string + bytes" where
  "buffer_frames max_body [] buf = Inr buf"
| "buffer_frames max_body (DataFrame chunk # fs) buf =
     (if length buf + length chunk > max_body then Inl ''response too large to inspect''
      else buffer_frames max_body fs (buf @ chunk))"
| "buffer_frames max_body (TrailersFrame # fs) buf = buffer_frames max_body fs buf"
| "buffer_frames max_body (ReadFailed e # fs) buf = Inl ''upstream read error''"

definition streamed :: "('h, frame list) http_response \<Rightarrow> ('h, resp_body) http_response" where
  "streamed r = \<lparr>hp_status = hp_status r, hp_headers = hp_headers r, hp_body = Streamed (hp_body r)\<rparr>"

definition response_ctx_of ::
  "('h, 'x) http_response \<Rightarrow> client_info \<Rightarrow> string \<Rightarrow> body_state \<Rightarrow> 'h response_ctx" where
  "response_ctx_of resp client path body =
     \<lparr>rs_status = hp_status resp, rs_headers = hp_headers resp, rs_client = client, rs_path = path,
      rs_body = body\<rparr>"

definition reemit ::
  "('h, 'z) http_deps_scheme \<Rightarrow> ('h, frame list) http_response \<Rightarrow> bytes \<Rightarrow> ('h, resp_body) http_response" where
  "reemit D parts b =
     \<lparr>hp_status = hp_status parts,
      hp_headers = hm_insert D (hm_remove D (hm_remove D (hp_headers parts) ''transfer-encoding'') ''content-length'')
        ''content-length'' (show_nat (length b)),
      hp_body = FullBody b\<rparr>"

definition inspect_response ::
  "('h, 'n, 'b, 'c, 'a, 'r, 're, 'g) waf_env \<Rightarrow> ('h, ('h, 'n, 'b, 'c, 'a, 'r, 're) proxy_state) proxy_env \<Rightarrow>
     ('h, frame list) http_response \<Rightarrow> client_info \<Rightarrow> bool \<Rightarrow> string \<Rightarrow> string \<Rightarrow> 'n config \<Rightarrow> string \<Rightarrow>
     ('h, 'n, 'b, 'c, 'a, 'r, 're) proxy_state \<Rightarrow>
     ('h, resp_body) http_response \<times> ('h, 'n, 'b, 'c, 'a, 'r, 're) proxy_state" where
  "inspect_response E X resp client detect meth path cfg i s =
     (let D = e_deps E; max_body = unat (max_inspect_body (limits cfg)) in
      if \<not> (pipeline_needs_response_body (ps_waf s) \<and> response_body_inspectable D cfg (hp_headers resp) \<and>
            \<not> declared_len_over D (hp_headers resp) max_body) then
        (case pipeline_evaluate_response E (clk_response X) (response_ctx_of resp client path NotBuffered) (ps_waf s) of
           (d, w) \<Rightarrow> (case act_on D d detect (ip client) meth path i (s\<lparr>ps_waf := w\<rparr>) of
              (Some blocked, s1) \<Rightarrow> (blocked, s1)
            | (None, s1) \<Rightarrow> (streamed resp, s1)))
      else
        let s0 = aw_response X s in
        case buffer_frames max_body (hp_body resp) [] of
          Inl msg \<Rightarrow> (error_response D 502 msg, s0\<lparr>ps_metrics := m_upstream_error (ps_metrics s0)\<rparr>)
        | Inr b \<Rightarrow>
            (case pipeline_evaluate_response E (clk_response X) (response_ctx_of resp client path (Buffered b)) (ps_waf s0) of
               (d, w) \<Rightarrow> (case act_on D d detect (ip client) meth path i (s0\<lparr>ps_waf := w\<rparr>) of
                  (Some blocked, s1) \<Rightarrow> (blocked, s1)
                | (None, s1) \<Rightarrow> (reemit D resp b, s1))))"

section \<open>One request\<close>

text \<open>The body gate gives the inspected body and the body and length to forward; \<open>None\<close> stands for a
  body that is refused.\<close>

definition body_gate ::
  "('h, 'n, 'b, 'c, 'a, 'r, 're, 'g) waf_env \<Rightarrow> ('h, ('h, 'n, 'b, 'c, 'a, 'r, 're) proxy_state) proxy_env \<Rightarrow>
     'n config \<Rightarrow> ('h, frame list) http_request \<Rightarrow> ('h, 'n, 'b, 'c, 'a, 'r, 're) proxy_state \<Rightarrow>
     (body_state \<times> resp_body \<times> nat option) option \<times> ('h, 'n, 'b, 'c, 'a, 'r, 're) proxy_state" where
  "body_gate E X cfg req s =
     (let max_body = unat (max_inspect_body (limits cfg)) in
      if should_inspect_body (e_deps E) cfg req then
        if declared_len_over (e_deps E) (hr_headers req) max_body then (None, s)
        else
          (let s1 = aw_body X s in
           case px_collect X max_body (hr_body req) of
             Some b \<Rightarrow> (Some (Buffered b, FullBody b, Some (length b)), s1)
           | None \<Rightarrow> (None, s1))
      else (Some (NotBuffered, Streamed (hr_body req), None), s))"

definition forward_and_answer ::
  "('h, 'n, 'b, 'c, 'a, 'r, 're, 'g) waf_env \<Rightarrow> ('h, ('h, 'n, 'b, 'c, 'a, 'r, 're) proxy_state) proxy_env \<Rightarrow>
     'n config \<Rightarrow> ('h, frame list) http_request \<Rightarrow> string \<Rightarrow> resp_body \<Rightarrow> nat option \<Rightarrow>
     (('h, frame list) http_response \<Rightarrow> ('h, 'n, 'b, 'c, 'a, 'r, 're) proxy_state \<Rightarrow>
        ('h, resp_body) http_response \<times> ('h, 'n, 'b, 'c, 'a, 'r, 're) proxy_state) \<Rightarrow>
     ('h, 'n, 'b, 'c, 'a, 'r, 're) proxy_state \<Rightarrow>
     ('h, resp_body) http_response \<times> ('h, 'n, 'b, 'c, 'a, 'r, 're) proxy_state" where
  "forward_and_answer E X cfg req i out_body buffered_len k s =
     (let D = e_deps E;
          parts = \<lparr>hr_method = hr_method req, hr_uri = hr_uri req,
            hr_headers = set_request_id D (request_id_header (server cfg)) i (hr_headers req), hr_body = out_body\<rparr>
      in case forward D X cfg parts buffered_len s of
           (Inr resp, s1) \<Rightarrow> k resp s1
         | (Inl e, s1) \<Rightarrow> on_forward_error D e s1)"

definition request_ctx_of :: "('h, 'x) http_request \<Rightarrow> client_info \<Rightarrow> 'h request_ctx" where
  "request_ctx_of req client =
     \<lparr>rq_method = hr_method req, rq_path = u_path (hr_uri req), rq_query = u_query (hr_uri req),
      rq_headers = hr_headers req, rq_client = client, rq_body = NotBuffered,
      rq_normalized = normalized_default\<rparr>"

text \<open>The result is \<open>None\<close> where the code would panic (\<open>expect\<close> on the refusal of a body).\<close>

definition handle_inner ::
  "('h, 'n, 'b, 'c, 'a, 'r, 're, 'g) waf_env \<Rightarrow> ('h, ('h, 'n, 'b, 'c, 'a, 'r, 're) proxy_state) proxy_env \<Rightarrow>
     'g pipeline \<Rightarrow> 'n config \<Rightarrow> ('h, frame list) http_request \<Rightarrow> ip_addr \<Rightarrow> string \<Rightarrow>
     ('h, 'n, 'b, 'c, 'a, 'r, 're) proxy_state \<Rightarrow>
     ('h, resp_body) http_response option \<times> ('h, 'n, 'b, 'c, 'a, 'r, 're) proxy_state" where
  "handle_inner E X p cfg req peer_ip i s0 =
     (let D = e_deps E; s = s0\<lparr>ps_metrics := m_request (ps_metrics s0)\<rparr>;
          client = resolve_client D cfg (hr_headers req) peer_ip;
          a = ip client; meth = hr_method req; path = u_path (hr_uri req)
      in
      if is_whitelisted E (clk_allow X) (ps_waf s) a then
        apfst Some (forward_and_answer E X cfg req i (Streamed (hr_body req)) None (\<lambda>resp s. (streamed resp, s))
          (s\<lparr>ps_metrics := m_record Allow (m_whitelisted (ps_metrics s))\<rparr>))
      else
        let detect = (enforcement (server cfg) = Detect) in
        case evaluate_early E (clk_early X) p (request_ctx_of req client) (ps_waf s) of
          (d1, ctx, w1) \<Rightarrow>
        (case act_on D d1 detect a meth path i (s\<lparr>ps_waf := w1\<rparr>) of
          (Some resp, s1) \<Rightarrow> (Some resp, s1)
        | (None, s1) \<Rightarrow>
        (case body_gate E X cfg req s1 of
          (None, s2) \<Rightarrow> act_on D body_too_large False a meth path i s2
        | (Some (body, out_body, buffered_len), s2) \<Rightarrow>
        (case evaluate_late E (clk_late X) p (ctx\<lparr>rq_body := body\<rparr>) (ps_waf s2) of
          (d2, _, w2) \<Rightarrow>
        (case act_on D d2 detect a meth path i (s2\<lparr>ps_waf := w2\<rparr>) of
          (Some resp, s3) \<Rightarrow> (Some resp, s3)
        | (None, s3) \<Rightarrow>
            apfst Some (forward_and_answer E X cfg req i out_body buffered_len
              (\<lambda>resp. inspect_response E X resp client detect meth path cfg i)
              (s3\<lparr>ps_metrics := m_record Allow (ps_metrics s3)\<rparr>)))))))"

definition handle ::
  "('h, 'n, 'b, 'c, 'a, 'r, 're, 'g) waf_env \<Rightarrow> ('h, ('h, 'n, 'b, 'c, 'a, 'r, 're) proxy_state) proxy_env \<Rightarrow>
     'g pipeline \<Rightarrow> 'n config \<Rightarrow> ('h, frame list) http_request \<Rightarrow> ip_addr \<Rightarrow>
     ('h, 'n, 'b, 'c, 'a, 'r, 're) proxy_state \<Rightarrow>
     ('h, resp_body) http_response option \<times> ('h, 'n, 'b, 'c, 'a, 'r, 're) proxy_state" where
  "handle E X p cfg req peer_ip s =
     (case resolve (e_deps E) (px_seed X) (hr_headers req) (request_id_header (server cfg)) (ps_counter s) of
        (i, n) \<Rightarrow>
          (case handle_inner E X p cfg req peer_ip i (s\<lparr>ps_counter := n\<rparr>) of
             (None, s1) \<Rightarrow> (None, s1)
           | (Some resp, s1) \<Rightarrow>
               (Some (resp\<lparr>hp_headers := set_request_id (e_deps E) (request_id_header (server cfg)) i (hp_headers resp)\<rparr>),
                s1)))"

section \<open>Header lemmas\<close>

lemma get_foldl_remove:
  assumes "http_laws D"
  shows "hm_get D (foldl (hm_remove D) h ns) m =
    (if list_ex (\<lambda>n. eq_ignore_ascii_case n m) ns then None else hm_get D h m)"
  by (induction ns arbitrary: h) (simp_all add: http_laws_remove [OF assms])

lemma get_set_request_id:
  assumes "http_laws D"
  shows "hm_get D (set_request_id D name i h) m =
    (if name \<noteq> [] \<and> hname_ok D name \<and> hvalue_ok D i \<and> eq_ignore_ascii_case name m then Some i
     else hm_get D h m)"
  using http_laws_insert [OF assms] by (simp add: set_request_id_def)

lemma get_reemit:
  assumes "http_laws D" "hname_ok D ''content-length''"
  shows "hm_get D (hp_headers (reemit D parts b)) m =
    (if eq_ignore_ascii_case ''content-length'' m then Some (show_nat (length b))
     else if eq_ignore_ascii_case ''transfer-encoding'' m then None
     else hm_get D (hp_headers parts) m)"
  by (simp add: reemit_def http_laws_insert [OF assms] http_laws_remove [OF assms(1)])

section \<open>Properties of the header functions\<close>

text \<open>C4: the address a request is judged by cannot be forged. A peer outside the trusted network is judged
  by its own socket address whatever headers it sends; behind a trusted peer it is the address at the
  head of the configured header, and without a readable one the peer's own.\<close>

theorem client_address_authentic:
  "(\<not> net_contains D (trusted_peer (server cfg)) peer \<longrightarrow>
      resolve_client D cfg h peer = \<lparr>ip = peer, geo = None\<rparr>) \<and>
   (net_contains D (trusted_peer (server cfg)) peer \<and>
      header_str D h (client_ip_header (server cfg)) = Some (seg @ rest) \<and>
      CHR '','' \<notin> set seg \<and> (rest = [] \<or> hd rest = CHR '','') \<longrightarrow>
      ip (resolve_client D cfg h peer) = (case parse_ip (trim seg) of None \<Rightarrow> peer | Some a \<Rightarrow> a) \<and>
      (trim seg = show_ip (V4 w) \<longrightarrow> ip (resolve_client D cfg h peer) = V4 w)) \<and>
   (header_str D h (client_ip_header (server cfg)) = None \<longrightarrow> ip (resolve_client D cfg h peer) = peer)"
proof -
  have "hd (split_char (CHR '','') (seg @ rest)) = seg"
    if "CHR '','' \<notin> set seg" "rest = [] \<or> hd rest = CHR '',''"
    using that by (cases rest) (auto simp: split_char_hd takeWhile_append)
  then show ?thesis
    by (auto simp: resolve_client_def Let_def unwrap_or_def parse_ip_show_v4 split: option.splits)
qed

theorem client_address_authentic_witness:
  "resolve_client inst sample_config [(''x-forwarded-for'', ''1.2.3.4'')] (V4 0x08080808) =
     \<lparr>ip = V4 0x08080808, geo = None\<rparr>"
proof -
  have "\<not> net_contains inst (trusted_peer (server sample_config)) (V4 0x08080808)"
    by (simp add: sample_config_def n_contains_def)
  then show ?thesis using client_address_authentic [of inst sample_config "V4 0x08080808"] by blast
qed



section \<open>The course of a request\<close>

text \<open>Other tasks leave the counters, the audit records and the sent requests of this one alone; they may
  change the inspection state and the id counter in any way.\<close>

definition quiet :: "('h, ('h, 'n, 'b, 'c, 'a, 'r, 're) proxy_state) proxy_env \<Rightarrow> bool" where
  "quiet X \<longleftrightarrow> (\<forall>s. \<forall>aw\<in>{aw_body X, aw_upstream X, aw_response X}.
     ps_metrics (aw s) = ps_metrics s \<and> ps_audit (aw s) = ps_audit s \<and> ps_sent (aw s) = ps_sent s)"

lemma quiet_simps:
  assumes "quiet X"
  shows "ps_metrics (aw_body X s) = ps_metrics s" "ps_audit (aw_body X s) = ps_audit s"
    "ps_sent (aw_body X s) = ps_sent s" "ps_metrics (aw_upstream X s) = ps_metrics s"
    "ps_audit (aw_upstream X s) = ps_audit s" "ps_sent (aw_upstream X s) = ps_sent s"
    "ps_metrics (aw_response X s) = ps_metrics s" "ps_audit (aw_response X s) = ps_audit s"
    "ps_sent (aw_response X s) = ps_sent s"
  using assms by (auto simp: quiet_def)

text \<open>What acting on a decision does.\<close>

lemma act_on_cases:
  assumes "act_on D d detect a meth path i s = (r, s')"
  obtains (pass) "d = Allow" "r = None" "s' = s"
  | (detected) rid st why where "d = Block rid st why" "detect" "r = None"
      "s' = s\<lparr>ps_metrics := m_would_block (ps_metrics s), ps_audit := ps_audit s @ audit_decision a meth path d False i\<rparr>"
  | (refused) "d \<noteq> Allow" "r = Some (decision_response D d)" "detect \<longrightarrow> (\<exists>k. d = RateLimited k)"
      "s' = s\<lparr>ps_metrics := m_record d (ps_metrics s), ps_audit := ps_audit s @ audit_decision a meth path d True i\<rparr>"
  using assms by (cases d) (auto simp: act_on_def split: if_splits)

lemma act_on_keeps:
  "act_on D d detect a meth path i s = (r, s') \<Longrightarrow> ps_sent s' = ps_sent s \<and> ps_waf s' = ps_waf s"
  by (auto simp: act_on_def split: waf_decision.splits if_splits)

lemma act_on_too_large:
  "\<exists>s'. act_on D body_too_large False a meth path i s = (Some (decision_response D body_too_large), s')"
  by (simp add: act_on_def body_too_large_def)

lemma body_gate_frame:
  assumes "quiet X" "body_gate E X cfg req s = (g, s')"
  shows "ps_metrics s' = ps_metrics s" "ps_audit s' = ps_audit s" "ps_sent s' = ps_sent s"
  using assms(2) quiet_simps [OF assms(1)]
  by (auto simp: body_gate_def Let_def split: if_splits option.splits)

lemma body_gate_Some:
  assumes "body_gate E X cfg req s = (Some (body, out, len), s')"
  shows "(if should_inspect_body (e_deps E) cfg req then
      \<exists>b. px_collect X (unat (max_inspect_body (limits cfg))) (hr_body req) = Some b \<and>
        body = Buffered b \<and> out = FullBody b \<and> len = Some (length b)
    else body = NotBuffered \<and> out = Streamed (hr_body req) \<and> len = None)"
  using assms by (auto simp: body_gate_def Let_def split: if_splits option.splits)

text \<open>What is put on the wire for a request, and where the answer comes from.\<close>

definition wire_request ::
  "('h, 'z) http_deps_scheme \<Rightarrow> 'n config \<Rightarrow> ('h, frame list) http_request \<Rightarrow> string \<Rightarrow> resp_body \<Rightarrow> nat option \<Rightarrow>
     uri \<Rightarrow> ('h, resp_body) http_request" where
  "wire_request D cfg req i out len u =
     \<lparr>hr_method = hr_method req, hr_uri = u,
      hr_headers = sanitize_forward_headers D len
        (set_request_id D (request_id_header (server cfg)) i (hr_headers req)),
      hr_body = out\<rparr>"

lemma forward_and_answer_cases:
  assumes "forward_and_answer E X cfg req i out len k s = (r, s')"
  obtains (no_uri) e where "rewrite_uri (px_uri_build X) (upstream (server cfg)) (hr_uri req) = Inl e"
      "on_forward_error (e_deps E) (Upstream e) s = (r, s')"
  | (failed) u err where "rewrite_uri (px_uri_build X) (upstream (server cfg)) (hr_uri req) = Inr u"
      "on_forward_error (e_deps E) err
         (aw_upstream X (s\<lparr>ps_sent := ps_sent s @ [wire_request (e_deps E) cfg req i out len u]\<rparr>)) = (r, s')"
  | (answered) u resp where "rewrite_uri (px_uri_build X) (upstream (server cfg)) (hr_uri req) = Inr u"
      "px_request X (upstream_timeout_secs (server cfg)) (wire_request (e_deps E) cfg req i out len u) = Replied resp"
      "k resp (aw_upstream X (s\<lparr>ps_sent := ps_sent s @ [wire_request (e_deps E) cfg req i out len u]\<rparr>)) = (r, s')"
proof (cases "rewrite_uri (px_uri_build X) (upstream (server cfg)) (hr_uri req)")
  case (Inl e)
  with assms show thesis by (intro no_uri) (simp_all add: forward_and_answer_def forward_def)
next
  case (Inr u)
  let ?out = "wire_request (e_deps E) cfg req i out len u"
  show thesis
  proof (cases "px_request X (upstream_timeout_secs (server cfg)) ?out")
    case Elapsed
    with Inr assms show thesis
      by (intro failed [of u Timeout]) (simp_all add: forward_and_answer_def forward_def wire_request_def Let_def)
  next
    case (RequestFailed e)
    with Inr assms show thesis
      by (intro failed [of u "Upstream (''upstream request: '' @ e)"])
         (simp_all add: forward_and_answer_def forward_def wire_request_def Let_def)
  next
    case (Replied resp)
    with Inr assms show thesis
      by (intro answered [of u resp]) (simp_all add: forward_and_answer_def forward_def wire_request_def Let_def)
  qed
qed

text \<open>The response phase reads the body when a rule needs it, the type is listed and the declared length
  fits.\<close>

definition reads_body ::
  "('h, 'n, 'b, 'c, 'a, 'r, 're, 'g) waf_env \<Rightarrow> 'n config \<Rightarrow> 'h \<Rightarrow> ('n, 'b, 'c, 'a, 'r, 're) waf_state \<Rightarrow> bool" where
  "reads_body E cfg headers w \<longleftrightarrow> pipeline_needs_response_body w \<and>
     response_body_inspectable (e_deps E) cfg headers \<and>
     \<not> declared_len_over (e_deps E) headers (unat (max_inspect_body (limits cfg)))"

lemma inspect_response_cases:
  assumes "inspect_response E X resp client detect meth path cfg i s = (r, s')"
  obtains (unreadable) msg where "reads_body E cfg (hp_headers resp) (ps_waf s)"
      "buffer_frames (unat (max_inspect_body (limits cfg))) (hp_body resp) [] = Inl msg"
      "r = error_response (e_deps E) 502 msg"
      "s' = (aw_response X s)\<lparr>ps_metrics := m_upstream_error (ps_metrics (aw_response X s))\<rparr>"
  | (head) d w x where "\<not> reads_body E cfg (hp_headers resp) (ps_waf s)"
      "pipeline_evaluate_response E (clk_response X) (response_ctx_of resp client path NotBuffered) (ps_waf s) = (d, w)"
      "act_on (e_deps E) d detect (ip client) meth path i (s\<lparr>ps_waf := w\<rparr>) = (x, s')"
      "r = unwrap_or x (streamed resp)"
  | (body) b d w x where "reads_body E cfg (hp_headers resp) (ps_waf s)"
      "buffer_frames (unat (max_inspect_body (limits cfg))) (hp_body resp) [] = Inr b"
      "pipeline_evaluate_response E (clk_response X) (response_ctx_of resp client path (Buffered b))
         (ps_waf (aw_response X s)) = (d, w)"
      "act_on (e_deps E) d detect (ip client) meth path i ((aw_response X s)\<lparr>ps_waf := w\<rparr>) = (x, s')"
      "r = unwrap_or x (reemit (e_deps E) resp b)"
proof -
  note def = assms [unfolded inspect_response_def Let_def, folded reads_body_def]
  show thesis
  proof (cases "reads_body E cfg (hp_headers resp) (ps_waf s)")
    case False
    then show thesis using def head
      by (auto simp: unwrap_or_def split: prod.splits option.splits)
  next
    case True
    then show thesis using def unreadable body
      by (cases "buffer_frames (unat (max_inspect_body (limits cfg))) (hp_body resp) []")
         (auto simp: unwrap_or_def split: prod.splits option.splits)
  qed
qed

text \<open>The state when the request has been counted.\<close>

definition arrived ::
  "('h, 'n, 'b, 'c, 'a, 'r, 're) proxy_state \<Rightarrow> ('h, 'n, 'b, 'c, 'a, 'r, 're) proxy_state" where
  "arrived s = s\<lparr>ps_metrics := m_request (ps_metrics s)\<rparr>"

lemma arrived_simps [simp]:
  "ps_waf (arrived s) = ps_waf s" "ps_sent (arrived s) = ps_sent s" "ps_audit (arrived s) = ps_audit s"
  "ps_metrics (arrived s) = m_request (ps_metrics s)"
  by (simp_all add: arrived_def)

abbreviation client_of ::
  "('h, 'n, 'b, 'c, 'a, 'r, 're, 'g) waf_env \<Rightarrow> 'n config \<Rightarrow> ('h, frame list) http_request \<Rightarrow> ip_addr \<Rightarrow> client_info" where
  "client_of E cfg req peer \<equiv> resolve_client (e_deps E) cfg (hr_headers req) peer"

abbreviation act_on_request ::
  "('h, 'n, 'b, 'c, 'a, 'r, 're, 'g) waf_env \<Rightarrow> 'n config \<Rightarrow> ('h, frame list) http_request \<Rightarrow> ip_addr \<Rightarrow> string \<Rightarrow>
     waf_decision \<Rightarrow> ('h, 'n, 'b, 'c, 'a, 'r, 're) proxy_state \<Rightarrow>
     ('h, resp_body) http_response option \<times> ('h, 'n, 'b, 'c, 'a, 'r, 're) proxy_state" where
  "act_on_request E cfg req peer i d s \<equiv>
     act_on (e_deps E) d (enforcement (server cfg) = Detect) (ip (client_of E cfg req peer)) (hr_method req)
       (u_path (hr_uri req)) i s"

lemma apfst_SomeE:
  assumes "apfst Some t = (r, s')"
  obtains x where "t = (x, s')" "r = Some x"
  using assms by (cases t) auto

lemma handle_inner_cases:
  assumes "handle_inner E X p cfg req peer i s = (r, s')"
  obtains (bypass) x where "is_whitelisted E (clk_allow X) (ps_waf s) (ip (client_of E cfg req peer))"
      "forward_and_answer E X cfg req i (Streamed (hr_body req)) None (\<lambda>resp s. (streamed resp, s))
         (s\<lparr>ps_metrics := m_record Allow (m_whitelisted (m_request (ps_metrics s)))\<rparr>) = (x, s')" "r = Some x"
  | (early) d ctx w x where "\<not> is_whitelisted E (clk_allow X) (ps_waf s) (ip (client_of E cfg req peer))"
      "evaluate_early E (clk_early X) p (request_ctx_of req (client_of E cfg req peer)) (ps_waf s) = (d, ctx, w)"
      "act_on_request E cfg req peer i d ((arrived s)\<lparr>ps_waf := w\<rparr>) = (Some x, s')" "r = Some x"
  | (too_large) d ctx w s1 s2 where "\<not> is_whitelisted E (clk_allow X) (ps_waf s) (ip (client_of E cfg req peer))"
      "evaluate_early E (clk_early X) p (request_ctx_of req (client_of E cfg req peer)) (ps_waf s) = (d, ctx, w)"
      "act_on_request E cfg req peer i d ((arrived s)\<lparr>ps_waf := w\<rparr>) = (None, s1)"
      "body_gate E X cfg req s1 = (None, s2)"
      "act_on (e_deps E) body_too_large False (ip (client_of E cfg req peer)) (hr_method req)
         (u_path (hr_uri req)) i s2 = (r, s')"
  | (late) d ctx w s1 bd out len s2 d2 ctx2 w2 x where
      "\<not> is_whitelisted E (clk_allow X) (ps_waf s) (ip (client_of E cfg req peer))"
      "evaluate_early E (clk_early X) p (request_ctx_of req (client_of E cfg req peer)) (ps_waf s) = (d, ctx, w)"
      "act_on_request E cfg req peer i d ((arrived s)\<lparr>ps_waf := w\<rparr>) = (None, s1)"
      "body_gate E X cfg req s1 = (Some (bd, out, len), s2)"
      "evaluate_late E (clk_late X) p (ctx\<lparr>rq_body := bd\<rparr>) (ps_waf s2) = (d2, ctx2, w2)"
      "act_on_request E cfg req peer i d2 (s2\<lparr>ps_waf := w2\<rparr>) = (Some x, s')" "r = Some x"
  | (forwarded) d ctx w s1 bd out len s2 d2 ctx2 w2 s3 x where
      "\<not> is_whitelisted E (clk_allow X) (ps_waf s) (ip (client_of E cfg req peer))"
      "evaluate_early E (clk_early X) p (request_ctx_of req (client_of E cfg req peer)) (ps_waf s) = (d, ctx, w)"
      "act_on_request E cfg req peer i d ((arrived s)\<lparr>ps_waf := w\<rparr>) = (None, s1)"
      "body_gate E X cfg req s1 = (Some (bd, out, len), s2)"
      "evaluate_late E (clk_late X) p (ctx\<lparr>rq_body := bd\<rparr>) (ps_waf s2) = (d2, ctx2, w2)"
      "act_on_request E cfg req peer i d2 (s2\<lparr>ps_waf := w2\<rparr>) = (None, s3)"
      "forward_and_answer E X cfg req i out len
         (\<lambda>resp. inspect_response E X resp (client_of E cfg req peer) (enforcement (server cfg) = Detect)
            (hr_method req) (u_path (hr_uri req)) cfg i)
         (s3\<lparr>ps_metrics := m_record Allow (ps_metrics s3)\<rparr>) = (x, s')" "r = Some x"
proof -
  let ?client = "client_of E cfg req peer"
  note def = assms [unfolded handle_inner_def Let_def, folded arrived_def]
  show thesis
  proof (cases "is_whitelisted E (clk_allow X) (ps_waf s) (ip ?client)")
    case True
    with def show thesis
      by (auto simp: arrived_def elim!: apfst_SomeE intro: bypass)
  next
    case nw: False
    obtain d ctx w where e: "evaluate_early E (clk_early X) p (request_ctx_of req ?client) (ps_waf s) = (d, ctx, w)"
      by (cases "evaluate_early E (clk_early X) p (request_ctx_of req ?client) (ps_waf s)") blast
    obtain x1 s1 where a1: "act_on_request E cfg req peer i d ((arrived s)\<lparr>ps_waf := w\<rparr>) = (x1, s1)"
      by (cases "act_on_request E cfg req peer i d ((arrived s)\<lparr>ps_waf := w\<rparr>)") blast
    obtain g s2 where g: "body_gate E X cfg req s1 = (g, s2)" by (cases "body_gate E X cfg req s1") blast
    note step = nw e a1 g
    show thesis
    proof -
      consider (a) y where "x1 = Some y" | (b) "x1 = None" "g = None" | (c) y where "x1 = None" "g = Some y"
        by (cases x1; cases g) blast+
      then show thesis
      proof cases
        case (a y)
        with def step show thesis by (intro early [of d ctx w y]) (auto simp: arrived_def)
      next
        case b
        with def step show thesis by (intro too_large) (simp_all add: arrived_def)
      next
        case y: (c y)
        obtain bd out len where t: "y = (bd, out, len)" by (cases y) blast
        obtain d2 ctx2 w2 where l: "evaluate_late E (clk_late X) p (ctx\<lparr>rq_body := bd\<rparr>) (ps_waf s2) = (d2, ctx2, w2)"
          by (cases "evaluate_late E (clk_late X) p (ctx\<lparr>rq_body := bd\<rparr>) (ps_waf s2)") blast
        obtain x2 s3 where a2: "act_on_request E cfg req peer i d2 (s2\<lparr>ps_waf := w2\<rparr>) = (x2, s3)"
          by (cases "act_on_request E cfg req peer i d2 (s2\<lparr>ps_waf := w2\<rparr>)") blast
        note step' = step(1,2) step(3,4) [unfolded y t] l a2
        show thesis
        proof (cases x2)
          case None
          with def step' show thesis by (auto elim!: apfst_SomeE intro: forwarded)
        next
          case (Some z)
          with def step' show thesis
            by (intro late [of d ctx w s1 bd out len s2 d2 ctx2 w2 z]) (auto simp: arrived_def)
        qed
      qed
    qed
  qed
qed

lemma inspect_response_sent:
  assumes "quiet X" "inspect_response E X resp client detect meth path cfg i s = (r, s')"
  shows "ps_sent s' = ps_sent s"
  using assms(2)
proof (cases rule: inspect_response_cases)
  case (head d w x)
  then show ?thesis by (auto dest: act_on_keeps)
next
  case (body b d w x)
  then show ?thesis by (auto simp: quiet_simps [OF assms(1)] dest: act_on_keeps)
qed (simp add: quiet_simps [OF assms(1)])

lemma forward_and_answer_sent:
  assumes "quiet X" "forward_and_answer E X cfg req i out len k s = (r, s')"
    and "\<And>resp t x t'. k resp t = (x, t') \<Longrightarrow> ps_sent t' = ps_sent t"
  shows "(ps_sent s' = ps_sent s \<and> (\<exists>e. rewrite_uri (px_uri_build X) (upstream (server cfg)) (hr_uri req) = Inl e)) \<or>
    (\<exists>u. rewrite_uri (px_uri_build X) (upstream (server cfg)) (hr_uri req) = Inr u \<and>
       ps_sent s' = ps_sent s @ [wire_request (e_deps E) cfg req i out len u])"
  using assms(2)
proof (cases rule: forward_and_answer_cases)
  case (answered u resp)
  from assms(3) [OF this(3)] this(1) show ?thesis by (simp add: quiet_simps [OF assms(1)])
qed (auto simp: on_forward_error_def quiet_simps [OF assms(1)])

lemma forward_inspect_sent:
  assumes "quiet X"
    and "forward_and_answer E X cfg req i out len (\<lambda>resp. inspect_response E X resp client detect meth path cfg i) s = (r, s')"
  shows "(ps_sent s' = ps_sent s \<and> (\<exists>e. rewrite_uri (px_uri_build X) (upstream (server cfg)) (hr_uri req) = Inl e)) \<or>
    (\<exists>u. ps_sent s' = ps_sent s @ [wire_request (e_deps E) cfg req i out len u])"
proof -
  have "(ps_sent s' = ps_sent s \<and> (\<exists>e. rewrite_uri (px_uri_build X) (upstream (server cfg)) (hr_uri req) = Inl e)) \<or>
    (\<exists>u. rewrite_uri (px_uri_build X) (upstream (server cfg)) (hr_uri req) = Inr u \<and>
       ps_sent s' = ps_sent s @ [wire_request (e_deps E) cfg req i out len u])"
    by (rule forward_and_answer_sent [OF assms]) (erule inspect_response_sent [OF assms(1)])
  then show ?thesis by blast
qed

section \<open>A concrete proxy\<close>

text \<open>Third-party operations for concrete runs: a collect that obeys the limit, a URI builder, an upstream that
  always answers, and no other request in between.\<close>

definition xinst :: "(hdrs, 's) proxy_env" where
  "xinst = \<lparr>px_collect = (\<lambda>mx fs. case buffer_frames mx fs [] of Inl _ \<Rightarrow> None | Inr b \<Rightarrow> Some b),
     px_uri_build = (\<lambda>sc au pq. Inr \<lparr>u_scheme = sc, u_authority = Some au, u_path = pq, u_query = None,
       u_path_and_query = Some pq\<rparr>),
     px_request = (\<lambda>_ _. Replied \<lparr>hp_status = 200, hp_headers = [], hp_body = [DataFrame ''hi'']\<rparr>),
     px_seed = 1, clk_allow = 5, clk_early = 5, clk_late = 5, clk_response = 5,
     aw_body = id, aw_upstream = id, aw_response = id\<rparr>"

definition sample_request :: "(hdrs, frame list) http_request" where
  "sample_request = \<lparr>hr_method = ''GET'',
     hr_uri = \<lparr>u_scheme = None, u_authority = None, u_path = ''/'', u_query = None, u_path_and_query = Some ''/''\<rparr>,
     hr_headers = [], hr_body = []\<rparr>"

lemma xinst_quiet: "quiet xinst"
  by (simp add: quiet_def xinst_def)

lemma xinst_sel [simp]:
  "clk_allow xinst = 5" "clk_early xinst = 5" "clk_late xinst = 5" "clk_response xinst = 5"
  "aw_body xinst = id" "aw_upstream xinst = id" "aw_response xinst = id"
  by (simp_all add: xinst_def)

text \<open>The request of a client that is on no list, in a state the system reaches: it is forwarded.\<close>

lemma sample_run:
  "\<exists>s r s' u. \<not> is_whitelisted winst 5 (ps_waf s) (V4 7) \<and> waf_reachable winst (ps_waf s) \<and> ps_sent s = [] \<and>
     db_compile inst minst builtin_signatures = Inr (w_db (ps_waf s)) \<and>
     (\<forall>enf. handle_inner winst xinst sample_pipeline (sample_config\<lparr>server := (server sample_config)\<lparr>enforcement := enf\<rparr>\<rparr>)
        sample_request (V4 7) ''id'' s = (Some r, s')) \<and>
     ps_sent s' = [wire_request inst sample_config sample_request ''id'' (Streamed []) None u] \<and> hp_status r = 200"
proof -
  obtain w ctx w' where w: "waf_reachable winst w" "db_compile inst minst builtin_signatures = Inr (w_db w)"
    "w_allow w = [block_perm (V4 8, 32)]" "resp_rules (rules (w_rules w')) = []"
    "evaluate winst 5 sample_pipeline (get_request (V4 7) ''/'' None) w = (Allow, ctx, w')"
    using winst_allows by blast
  obtain c v where e: "evaluate_early winst 5 sample_pipeline (get_request (V4 7) ''/'' None) w = (Allow, c, v)"
    and l: "evaluate_late winst 5 sample_pipeline c v = (Allow, ctx, w')"
    using w(5) by (auto simp: evaluate_def split: prod.splits waf_decision.splits)
  let ?cfg = "\<lambda>enf. sample_config\<lparr>server := (server sample_config)\<lparr>enforcement := enf\<rparr>\<rparr>"
  let ?s = "\<lparr>ps_waf = w, ps_metrics = metrics_default, ps_counter = 0, ps_audit = [], ps_sent = []\<rparr>"
  have nw: "\<not> is_whitelisted winst 5 w (V4 7)"
    by (simp add: is_whitelisted_def w blocks_contain_iff block_perm_def n_contains_def)
  have client: "resolve_client inst (?cfg enf) (hr_headers sample_request) (V4 7) = \<lparr>ip = V4 7, geo = None\<rparr>" for enf
    by (simp add: resolve_client_def sample_config_def n_contains_def)
  have ctx: "request_ctx_of sample_request \<lparr>ip = V4 7, geo = None\<rparr> = get_request (V4 7) ''/'' None"
    by (simp add: request_ctx_of_def sample_request_def get_request_def)
  have "rq_body c = NotBuffered"
    using run_frame [OF early_stages_waf [of winst 5 sample_pipeline], of "get_request (V4 7) ''/'' None"
        "p_on_error sample_pipeline" w] e
    by (simp add: evaluate_early_def ctx_frame_def get_request_def)
  then have c: "c\<lparr>rq_body := NotBuffered\<rparr> = c" by (cases c) simp
  obtain w'' where resp: "pipeline_evaluate_response winst 5
      (response_ctx_of \<lparr>hp_status = 200, hp_headers = [], hp_body = [DataFrame ''hi'']\<rparr> \<lparr>ip = V4 7, geo = None\<rparr> ''/''
        NotBuffered) w' = (Allow, w'')"
    using w(4) by (simp add: pipeline_evaluate_response_def rules_inspect_response_def evaluate_response_def)
  have gate: "body_gate winst xinst (?cfg enf) sample_request t = (Some (NotBuffered, Streamed [], None), t)" for enf t
    by (simp add: body_gate_def should_inspect_body_def sample_request_def Let_def)
  have body: "\<not> pipeline_needs_response_body w'"
    by (simp add: pipeline_needs_response_body_def needs_response_body_def w)
  have pass: "act_on D Allow detect a m pa i t = (None, t)" for D :: "(hdrs, cidr, bucket_table, counter_cache) limit_deps"
    and detect a m pa i and t :: "(hdrs, cidr, bucket_table, counter_cache, string list, string list, string) proxy_state"
    by (simp add: act_on_def)
  let ?resp = "\<lparr>hp_status = 200, hp_headers = [], hp_body = [DataFrame ''hi'']\<rparr> :: (hdrs, frame list) http_response"
  have answer: "\<exists>t' u. ps_sent t' = ps_sent t @ [wire_request inst sample_config sample_request ''id'' (Streamed []) None u] \<and>
      (\<forall>enf. forward_and_answer winst xinst (?cfg enf) sample_request ''id'' (Streamed []) None
        (\<lambda>resp. inspect_response winst xinst resp \<lparr>ip = V4 7, geo = None\<rparr> (enf = Detect) ''GET'' ''/'' (?cfg enf) ''id'') t =
       (streamed ?resp, t'))"
    if "ps_waf t = w'" for t
    using that body resp pass
    by (simp add: forward_and_answer_def forward_def rewrite_uri_def inspect_response_def wire_request_def Let_def
        xinst_def sample_config_def)
  let ?t = "?s\<lparr>ps_metrics := m_record Allow (m_request metrics_default), ps_waf := w'\<rparr>"
  obtain t' u where t: "ps_sent t' = [wire_request inst sample_config sample_request ''id'' (Streamed []) None u]"
    and a: "\<And>enf. forward_and_answer winst xinst (?cfg enf) sample_request ''id'' (Streamed []) None
        (\<lambda>resp. inspect_response winst xinst resp \<lparr>ip = V4 7, geo = None\<rparr> (enf = Detect) ''GET'' ''/'' (?cfg enf) ''id'') ?t =
       (streamed ?resp, t')"
    using answer [of ?t] by auto
  have meth: "hr_method sample_request = ''GET''" "u_path (hr_uri sample_request) = ''/''"
    by (simp_all add: sample_request_def)
  have "handle_inner winst xinst sample_pipeline (?cfg enf) sample_request (V4 7) ''id'' ?s = (Some (streamed ?resp), t')"
    for enf
    using nw e l gate a [of enf] by (simp add: handle_inner_def Let_def client ctx c pass meth)
  then show ?thesis
    using nw w t by (intro exI [of _ ?s] exI [of _ "streamed ?resp"] exI [of _ t'] exI [of _ u]) (simp add: streamed_def)
qed

section \<open>Properties of the request path\<close>



lemma response_decision:
  "pipeline_evaluate_response E now rctx w = (d, w') \<Longrightarrow> d = Allow \<or> (\<exists>i st why. d = Block i st why)"
  by (auto simp: pipeline_evaluate_response_def rules_inspect_response_def
      split: prod.splits option.splits outcome.splits)

lemma act_on_metrics:
  "act_on D d detect a meth path i s = (r, s') \<Longrightarrow>
     ps_metrics s' = (if d = Allow then ps_metrics s
       else if r = None then m_would_block (ps_metrics s) else m_record d (ps_metrics s)) \<and>
     (r = None \<longleftrightarrow> d = Allow \<or> detect \<and> (\<exists>i st why. d = Block i st why))"
  by (cases d) (auto simp: act_on_def split: if_splits)

lemma inspect_response_metrics:
  assumes "quiet X" "inspect_response E X resp client detect meth path cfg i s = (r, s')"
  shows "ps_metrics s' = ps_metrics s \<or> ps_metrics s' = m_upstream_error (ps_metrics s) \<or>
    detect \<and> ps_metrics s' = m_would_block (ps_metrics s) \<or>
    \<not> detect \<and> (\<exists>b st why. ps_metrics s' = m_record (Block b st why) (ps_metrics s))"
  using assms(2)
proof (cases rule: inspect_response_cases)
  case unreadable
  then show ?thesis by (simp add: quiet_simps [OF assms(1)])
next
  case (head d w x)
  from act_on_metrics [OF this(3)] response_decision [OF this(2)] show ?thesis by auto
next
  case (body b d w x)
  from act_on_metrics [OF this(4)] response_decision [OF this(3)] show ?thesis
    by (auto simp: quiet_simps [OF assms(1)])
qed

lemma forward_and_answer_metrics:
  assumes "quiet X" "forward_and_answer E X cfg req i out len k s = (r, s')"
  shows "ps_metrics s' = m_upstream_error (ps_metrics s) \<or>
    (\<exists>resp t. ps_metrics t = ps_metrics s \<and> k resp t = (r, s'))"
  using assms(2)
  by (cases rule: forward_and_answer_cases)
     (auto simp: on_forward_error_def quiet_simps [OF assms(1)])

lemma forward_inspect_metrics:
  assumes "quiet X" "forward_and_answer E X cfg req i out len
      (\<lambda>resp. inspect_response E X resp client detect meth path cfg i) s = (r, s')"
  shows "requests_total (ps_metrics s') = requests_total (ps_metrics s)"
    "allowed_total (ps_metrics s') = allowed_total (ps_metrics s)"
    "ratelimited_total (ps_metrics s') = ratelimited_total (ps_metrics s)"
    "whitelisted_total (ps_metrics s') = whitelisted_total (ps_metrics s)"
    "blocked_total (ps_metrics s') = blocked_total (ps_metrics s) \<or>
     \<not> detect \<and> blocked_total (ps_metrics s') = blocked_total (ps_metrics s) + 1"
proof -
  let ?m = "ps_metrics s" and ?m' = "ps_metrics s'"
  consider "?m' = ?m" | "?m' = m_upstream_error ?m" | "?m' = m_would_block ?m"
    | b st why where "\<not> detect" "?m' = m_record (Block b st why) ?m"
    using forward_and_answer_metrics [OF assms] inspect_response_metrics [OF assms(1)] by metis
  then have "requests_total ?m' = requests_total ?m \<and> allowed_total ?m' = allowed_total ?m \<and>
      ratelimited_total ?m' = ratelimited_total ?m \<and> whitelisted_total ?m' = whitelisted_total ?m \<and>
      (blocked_total ?m' = blocked_total ?m \<or> \<not> detect \<and> blocked_total ?m' = blocked_total ?m + 1)"
    by cases (simp_all add: metrics_defs)
  then show "requests_total ?m' = requests_total ?m" "allowed_total ?m' = allowed_total ?m"
    "ratelimited_total ?m' = ratelimited_total ?m" "whitelisted_total ?m' = whitelisted_total ?m"
    "blocked_total ?m' = blocked_total ?m \<or> \<not> detect \<and> blocked_total ?m' = blocked_total ?m + 1" by blast+
qed

text \<open>C12: every request is counted once and ends in exactly one way. It adds one to the request counter; then
  either it counts as allowed, and only a response rule in blocking mode may add to the blocked ones
  besides, or it is refused, with nothing sent upstream, and counts as blocked or as rate-limited, one of
  the two. Exactly the allow-listed requests count as such, and the handler always answers.\<close>

theorem requests_accounted:
  assumes "quiet X" "handle_inner E X p cfg req peer i s = (r, s')"
  shows "r \<noteq> None \<and> requests_total (ps_metrics s') = requests_total (ps_metrics s) + 1 \<and>
    whitelisted_total (ps_metrics s') = whitelisted_total (ps_metrics s) +
      (if is_whitelisted E (clk_allow X) (ps_waf s) (ip (client_of E cfg req peer)) then 1 else 0) \<and>
    (allowed_total (ps_metrics s') = allowed_total (ps_metrics s) + 1 \<and>
       ratelimited_total (ps_metrics s') = ratelimited_total (ps_metrics s) \<and>
       (blocked_total (ps_metrics s') = blocked_total (ps_metrics s) \<or>
        enforcement (server cfg) = EnforceBlock \<and>
        blocked_total (ps_metrics s') = blocked_total (ps_metrics s) + 1) \<or>
     allowed_total (ps_metrics s') = allowed_total (ps_metrics s) \<and> ps_sent s' = ps_sent s \<and>
       upstream_errors_total (ps_metrics s') = upstream_errors_total (ps_metrics s) \<and>
       (blocked_total (ps_metrics s') = blocked_total (ps_metrics s) + 1 \<and>
          ratelimited_total (ps_metrics s') = ratelimited_total (ps_metrics s) \<or>
        blocked_total (ps_metrics s') = blocked_total (ps_metrics s) \<and>
          ratelimited_total (ps_metrics s') = ratelimited_total (ps_metrics s) + 1))"
  using assms(2)
proof (cases rule: handle_inner_cases)
  case (bypass x)
  with forward_and_answer_metrics [OF assms(1) bypass(2)] show ?thesis by (auto simp: metrics_defs)
next
  case (early d ctx w x)
  with act_on_metrics [OF early(3)] act_on_keeps [OF early(3)] show ?thesis
    by (cases d) (auto simp: metrics_defs)
next
  case (too_large d ctx w s1 s2)
  then show ?thesis
    using act_on_metrics [OF too_large(3)] act_on_metrics [OF too_large(5)] act_on_keeps [OF too_large(3)]
      act_on_keeps [OF too_large(5)] body_gate_frame [OF assms(1) too_large(4)]
    by (cases d) (auto simp: metrics_defs body_too_large_def split: if_splits)
next
  case (late d ctx w s1 bd out len s2 d2 ctx2 w2 x)
  then show ?thesis
    using act_on_metrics [OF late(3)] act_on_metrics [OF late(6)] act_on_keeps [OF late(3)]
      act_on_keeps [OF late(6)] body_gate_frame [OF assms(1) late(4)]
    by (cases d; cases d2) (auto simp: metrics_defs split: if_splits)
next
  case (forwarded d ctx w s1 bd out len s2 d2 ctx2 w2 s3 x)
  have eb: "enforcement (server cfg) \<noteq> Detect \<Longrightarrow> enforcement (server cfg) = EnforceBlock"
    by (cases "enforcement (server cfg)") auto
  have "requests_total (ps_metrics s3) = requests_total (ps_metrics s) + 1 \<and>
    allowed_total (ps_metrics s3) = allowed_total (ps_metrics s) \<and>
    blocked_total (ps_metrics s3) = blocked_total (ps_metrics s) \<and>
    ratelimited_total (ps_metrics s3) = ratelimited_total (ps_metrics s) \<and>
    whitelisted_total (ps_metrics s3) = whitelisted_total (ps_metrics s)"
    using act_on_metrics [OF forwarded(3)] act_on_metrics [OF forwarded(6)]
      body_gate_frame(1) [OF assms(1) forwarded(4)]
    by (auto simp: metrics_defs split: if_splits)
  with forwarded(1,8) forward_inspect_metrics [OF assms(1) forwarded(7)] eb show ?thesis
    by (auto simp: metrics_defs)
qed

theorem requests_accounted_witness:
  "\<exists>(s :: (hdrs, cidr, bucket_table, counter_cache, string list, string list, string) proxy_state) r s'.
     handle_inner winst xinst sample_pipeline (sample_config\<lparr>server := (server sample_config)\<lparr>enforcement := EnforceBlock\<rparr>\<rparr>)
       sample_request (V4 7) ''id'' s = (Some r, s') \<and>
     requests_total (ps_metrics s') = requests_total (ps_metrics s) + 1"
proof -
  obtain s r s' where h: "handle_inner winst xinst sample_pipeline
      (sample_config\<lparr>server := (server sample_config)\<lparr>enforcement := EnforceBlock\<rparr>\<rparr>) sample_request (V4 7) ''id'' s = (Some r, s')"
    using sample_run by blast
  from requests_accounted [OF xinst_quiet h] h show ?thesis by blast
qed

lemma act_on_audit:
  "act_on D d detect a meth path i s = (r, s') \<Longrightarrow>
     ps_audit s' = ps_audit s @ (if d = Allow then [] else audit_decision a meth path d (r \<noteq> None) i)"
  by (cases d) (auto simp: act_on_def split: if_splits)

text \<open>What detection mode may record as enforced: rate limits and the refusal of a body.\<close>

definition capacity_only :: "audit_record list \<Rightarrow> bool" where
  "capacity_only as \<longleftrightarrow> (\<forall>a\<in>set as. au_enforced a \<longrightarrow> au_status a = 429 \<or> au_status a = 413)"

lemma capacity_only_append [simp]: "capacity_only (xs @ ys) \<longleftrightarrow> capacity_only xs \<and> capacity_only ys"
  by (auto simp: capacity_only_def)

lemma act_on_capacity:
  assumes "act_on D d True a meth path i s = (r, s')"
  shows "\<exists>new. ps_audit s' = ps_audit s @ new \<and> capacity_only new"
  using assms by (cases d) (auto simp: act_on_def capacity_only_def audit_decision_def split: if_splits)

lemma act_on_too_large_capacity:
  assumes "act_on D body_too_large False a meth path i s = (r, s')"
  shows "r = Some (decision_response D body_too_large) \<and>
    (\<exists>new. ps_audit s' = ps_audit s @ new \<and> capacity_only new)"
  using assms by (auto simp: act_on_def capacity_only_def audit_decision_def body_too_large_def)

lemma inspect_response_detect:
  assumes "quiet X" "inspect_response E X resp client True meth path cfg i s = (r, s')"
  shows "(hp_status r = hp_status resp \<or> hp_status r = 502) \<and>
    (\<exists>new. ps_audit s' = ps_audit s @ new \<and> capacity_only new)"
  using assms(2)
proof (cases rule: inspect_response_cases)
  case unreadable
  then show ?thesis by (simp add: quiet_simps [OF assms(1)] error_response_def capacity_only_def)
next
  case (head d w x)
  then have "x = None" using act_on_metrics [OF head(3)] response_decision [OF head(2)] by auto
  then show ?thesis using head(4) act_on_capacity [OF head(3)] by (simp add: unwrap_or_def streamed_def)
next
  case (body b d w x)
  then have "x = None" using act_on_metrics [OF body(4)] response_decision [OF body(3)] by auto
  then show ?thesis
    using body(5) act_on_capacity [OF body(4)] by (simp add: unwrap_or_def reemit_def quiet_simps [OF assms(1)])
qed

lemma forward_and_answer_detect:
  assumes "quiet X"
    and "forward_and_answer E X cfg req i out len (\<lambda>resp. inspect_response E X resp client True meth path cfg i) s = (r, s')"
  shows "(\<exists>new. ps_audit s' = ps_audit s @ new \<and> capacity_only new) \<and>
    (hp_status r \<in> {502, 504} \<or>
     (\<exists>u resp. px_request X (upstream_timeout_secs (server cfg)) (wire_request (e_deps E) cfg req i out len u) =
         Replied resp \<and> hp_status r = hp_status resp))"
  using assms(2)
proof (cases rule: forward_and_answer_cases)
  case (no_uri e)
  then show ?thesis by (auto simp: on_forward_error_def error_response_def capacity_only_def)
next
  case (failed u err)
  then show ?thesis
    by (cases err) (auto simp: on_forward_error_def error_response_def capacity_only_def quiet_simps [OF assms(1)])
next
  case (answered u resp)
  from inspect_response_detect [OF assms(1) answered(3)] answered(2) show ?thesis
    by (auto simp: quiet_simps [OF assms(1)])
qed

text \<open>C13: detection mode observes and does not interfere. No WAF verdict refuses a request there: a request
  is answered by a rate limit, by the body limit, or it goes upstream (unless no upstream URI can be
  built), and then the client gets the upstream's own status or a gateway error, also when a
  response rule matched; and every audit record it leaves as enforced is a 429 or a 413.\<close>

theorem detect_mode_forwards:
  assumes "quiet X" "enforcement (server cfg) = Detect"
    and "\<not> is_whitelisted E (clk_allow X) (ps_waf s) (ip (client_of E cfg req peer))"
    and "handle_inner E X p cfg req peer i s = (r, s')"
  shows "((\<exists>k. r = Some (decision_response (e_deps E) (RateLimited k)) \<and> ps_sent s' = ps_sent s) \<or>
      (r = Some (decision_response (e_deps E) body_too_large) \<and> ps_sent s' = ps_sent s) \<or>
      (\<exists>out len x. r = Some x \<and>
         ((\<exists>e. rewrite_uri (px_uri_build X) (upstream (server cfg)) (hr_uri req) = Inl e) \<or>
          (\<exists>u. ps_sent s' = ps_sent s @ [wire_request (e_deps E) cfg req i out len u])) \<and>
         (hp_status x \<in> {502, 504} \<or>
          (\<exists>u resp. px_request X (upstream_timeout_secs (server cfg)) (wire_request (e_deps E) cfg req i out len u) =
             Replied resp \<and> hp_status x = hp_status resp)))) \<and>
    (\<exists>new. ps_audit s' = ps_audit s @ new \<and> capacity_only new)"
  using assms(4)
proof (cases rule: handle_inner_cases)
  case (bypass x)
  with assms(3) show ?thesis by simp
next
  case (early d ctx w x)
  then show ?thesis
    using act_on_capacity [OF early(3) [unfolded assms(2) simp_thms]] assms(2) act_on_keeps [OF early(3)]
    by (auto elim!: act_on_cases)
next
  case (too_large d ctx w s1 s2)
  then show ?thesis
    using act_on_capacity [OF too_large(3) [unfolded assms(2) simp_thms]] act_on_too_large_capacity [OF too_large(5)]
      act_on_keeps [OF too_large(3)] act_on_keeps [OF too_large(5)] body_gate_frame [OF assms(1) too_large(4)]
    by auto
next
  case (late d ctx w s1 bd out len s2 d2 ctx2 w2 x)
  then show ?thesis
    using act_on_capacity [OF late(3) [unfolded assms(2) simp_thms]]
      act_on_capacity [OF late(6) [unfolded assms(2) simp_thms]] assms(2)
      act_on_keeps [OF late(3)] act_on_keeps [OF late(6)] body_gate_frame [OF assms(1) late(4)]
    by (auto elim!: act_on_cases)
next
  case (forwarded d ctx w s1 bd out len s2 d2 ctx2 w2 s3 x)
  have "ps_sent s3 = ps_sent s"
    using act_on_keeps [OF forwarded(3)] act_on_keeps [OF forwarded(6)] body_gate_frame [OF assms(1) forwarded(4)]
    by simp
  moreover obtain new where "ps_audit s3 = ps_audit s @ new" "capacity_only new"
    using act_on_capacity [OF forwarded(3) [unfolded assms(2) simp_thms]]
      act_on_capacity [OF forwarded(6) [unfolded assms(2) simp_thms]] body_gate_frame [OF assms(1) forwarded(4)]
    by auto
  moreover obtain new' where "ps_audit s' = ps_audit s3 @ new'" "capacity_only new'"
    and "hp_status x \<in> {502, 504} \<or>
     (\<exists>u resp. px_request X (upstream_timeout_secs (server cfg)) (wire_request (e_deps E) cfg req i out len u) =
         Replied resp \<and> hp_status x = hp_status resp)"
    using forward_and_answer_detect [OF assms(1) forwarded(7) [unfolded assms(2) simp_thms]] by auto
  ultimately show ?thesis
    using forward_inspect_sent [OF assms(1) forwarded(7)] forwarded(8) by simp metis
qed

theorem detect_mode_forwards_witness:
  "\<exists>(s :: (hdrs, cidr, bucket_table, counter_cache, string list, string list, string) proxy_state) r s' new.
     handle_inner winst xinst sample_pipeline (sample_config\<lparr>server := (server sample_config)\<lparr>enforcement := Detect\<rparr>\<rparr>)
       sample_request (V4 7) ''id'' s = (Some r, s') \<and> hp_status r = 200 \<and>
     ps_audit s' = ps_audit s @ new \<and> capacity_only new"
proof -
  let ?cfg = "sample_config\<lparr>server := (server sample_config)\<lparr>enforcement := Detect\<rparr>\<rparr>"
  obtain s r s' where s: "\<not> is_whitelisted winst 5 (ps_waf s) (V4 7)"
    "handle_inner winst xinst sample_pipeline ?cfg sample_request (V4 7) ''id'' s = (Some r, s')" "hp_status r = 200"
    using sample_run by blast
  have client: "client_of winst ?cfg sample_request (V4 7) = \<lparr>ip = V4 7, geo = None\<rparr>"
    by (simp add: resolve_client_def sample_config_def n_contains_def)
  have "enforcement (server ?cfg) = Detect"
    "\<not> is_whitelisted winst (clk_allow xinst) (ps_waf s) (ip (client_of winst ?cfg sample_request (V4 7)))"
    using s(1) unfolding client by simp_all
  from detect_mode_forwards [OF xinst_quiet this s(2)] s(2,3) show ?thesis by blast
qed

section \<open>Properties of the response path\<close>

fun data_of :: "frame list \<Rightarrow> bytes" where
  "data_of [] = []"
| "data_of (DataFrame b # fs) = b @ data_of fs"
| "data_of (_ # fs) = data_of fs"

text \<open>The buffering loop: it gives the whole body exactly when the body ends without a read error and fits.\<close>

lemma buffer_frames_Inr:
  "length buf \<le> mx \<Longrightarrow> buffer_frames mx fs buf = Inr b \<longleftrightarrow>
     b = buf @ data_of fs \<and> (\<forall>e. ReadFailed e \<notin> set fs) \<and> length b \<le> mx"
  by (induction mx fs buf rule: buffer_frames.induct) auto

lemma buffer_frames_Inl:
  "length buf \<le> mx \<Longrightarrow>
     (\<exists>msg. buffer_frames mx fs buf = Inl msg) \<longleftrightarrow> (\<exists>e. ReadFailed e \<in> set fs) \<or> mx < length (buf @ data_of fs)"
proof -
  assume "length buf \<le> mx"
  then have "(\<exists>b. buffer_frames mx fs buf = Inr b) \<longleftrightarrow> (\<forall>e. ReadFailed e \<notin> set fs) \<and> length (buf @ data_of fs) \<le> mx"
    by (simp add: buffer_frames_Inr)
  moreover have "(\<exists>b. buffer_frames mx fs buf = Inr b) \<longleftrightarrow> \<not> (\<exists>msg. buffer_frames mx fs buf = Inl msg)"
    by (cases "buffer_frames mx fs buf") simp_all
  ultimately show ?thesis by auto
qed


definition leak_rules :: "(string, cidr, bucket_table) rule_set" where
  "leak_rules = rules_empty\<lparr>resp_rules := [\<lparr>r_id = ''leak'', r_action = ABlock 500 ''leak'',
     r_conds = [\<lparr>cc_field = FRespBody, cc_op = OContains ''secret'', cc_negate = False, cc_transforms = []\<rparr>]\<rparr>]\<rparr>"


end
