(* ===== verification/Admin.thy ===== *)
theory Admin
  imports Proxy
begin

text \<open>
  \<open>crates/budu-proxy/src/admin.rs\<close>: the admin endpoint, that is the routing of its requests and the
  Prometheus text it renders (the listener itself is tokio and hyper). Shown: a scraper that knows
  the text format reads back every counter, whatever their values, and only \<open>GET /metrics\<close> tells them.
\<close>

definition sample :: "string \<Rightarrow> nat \<Rightarrow> string" where
  "sample n v = n @ CHR '' '' # show_nat v"

text \<open>The format string has one line per element; a number is printed by \<open>Display\<close>.\<close>

definition render :: "metrics_snapshot \<Rightarrow> pipeline_metrics \<Rightarrow> string" where
  "render m p = unlines
     [''# HELP budu_requests_total Total requests seen by B.U.D.U'',
      ''# TYPE budu_requests_total counter'',
      sample ''budu_requests_total'' (unat (sn_requests m)),
      ''# TYPE budu_allowed_total counter'',
      sample ''budu_allowed_total'' (unat (sn_allowed m)),
      ''# TYPE budu_blocked_total counter'',
      sample ''budu_blocked_total'' (unat (sn_blocked m)),
      ''# TYPE budu_ratelimited_total counter'',
      sample ''budu_ratelimited_total'' (unat (sn_ratelimited m)),
      ''# TYPE budu_upstream_errors_total counter'',
      sample ''budu_upstream_errors_total'' (unat (sn_upstream_errors m)),
      ''# TYPE budu_would_block_total counter'',
      sample ''budu_would_block_total'' (unat (sn_would_block m)),
      ''# TYPE budu_whitelisted_total counter'',
      sample ''budu_whitelisted_total'' (unat (sn_whitelisted m)),
      ''# TYPE budu_signatures gauge'',
      sample ''budu_signatures'' (pm_signatures p),
      ''# TYPE budu_rules gauge'',
      sample ''budu_rules'' (pm_rules p),
      ''# TYPE budu_rule_log_matches_total counter'',
      sample ''budu_rule_log_matches_total'' (unat (pm_rule_log_matches p)),
      ''# TYPE budu_blocklist_entries gauge'',
      sample ''budu_blocklist_entries'' (pm_blocklist p),
      ''# TYPE budu_allowlist_entries gauge'',
      sample ''budu_allowlist_entries'' (pm_allowlist p),
      ''# TYPE budu_rate_buckets gauge'',
      sample ''budu_rate_buckets'' (unat (pm_rate_buckets p)),
      ''# TYPE budu_counters gauge'',
      sample ''budu_counters'' (unat (pm_counters p))]"

definition text_response ::
  "('h, 'z) http_deps_scheme \<Rightarrow> u16 \<Rightarrow> string \<Rightarrow> string \<Rightarrow> ('h, resp_body) http_response" where
  "text_response D status body content_type =
     \<lparr>hp_status = status, hp_headers = hm_insert D (hm_new D) ''content-type'' content_type,
      hp_body = FullBody body\<rparr>"

definition route ::
  "('h, 'n, 'b, 'c, 'a, 'r, 're, 'g) waf_env \<Rightarrow> ('h, frame list) http_request \<Rightarrow>
     ('h, 'n, 'b, 'c, 'a, 'r, 're) proxy_state \<Rightarrow> ('h, resp_body) http_response" where
  "route E req s =
     (if hr_method req = ''GET'' \<and> u_path (hr_uri req) = ''/metrics'' then
        text_response (e_deps E) 200 (render (snapshot (ps_metrics s)) (pipeline_metrics_of E (ps_waf s)))
          ''text/plain; version=0.0.4''
      else if hr_method req = ''GET'' \<and> u_path (hr_uri req) = ''/healthz'' then
        text_response (e_deps E) 200 (''ok'' @ [nl]) ''text/plain''
      else text_response (e_deps E) 404 (''not found'' @ [nl]) ''text/plain'')"

text \<open>A reader of the text format: comment lines are skipped, a sample is a name, a space and a number.\<close>

definition scrape_line :: "string \<Rightarrow> (string \<times> nat) option" where
  "scrape_line l =
     (if starts_with ''#'' l then None
      else case split_once (CHR '' '') l of
        None \<Rightarrow> None
      | Some (n, v) \<Rightarrow> map_option (Pair n) (read_digits 0 v))"

definition scrape :: "string \<Rightarrow> (string \<times> nat) list" where
  "scrape text = List.map_filter scrape_line (lines text)"

lemma scrape_comment: "scrape_line (CHR ''#'' # l) = None"
  by (simp add: scrape_line_def starts_with_def)

lemma scrape_sample:
  "CHR '' '' \<notin> set n \<Longrightarrow> n \<noteq> [] \<Longrightarrow> hd n \<noteq> CHR ''#'' \<Longrightarrow>
     scrape_line (sample n v) = Some (n, v)"
  using split_once_Some_iff [of "CHR '' ''" "n @ CHR '' '' # show_nat v" n "show_nat v"]
  by (cases n) (auto simp: sample_def scrape_line_def starts_with_iff read_digits_show_nat)

definition one_line :: "string \<Rightarrow> bool" where
  "one_line l \<longleftrightarrow> nl \<notin> set l \<and> cr \<notin> set l"

lemma one_line_simps [simp]: "one_line []" "one_line (c # l) \<longleftrightarrow> c \<noteq> CHR 0x0A \<and> c \<noteq> CHR 0x0D \<and> one_line l"
  by (auto simp: one_line_def nl_cr_char)

lemma one_line_sample: "one_line n \<Longrightarrow> one_line (sample n v)"
  using show_nat_digits [of nl v] show_nat_digits [of cr v]
  by (auto simp: one_line_def sample_def nl_cr_char digit_val_def bv_def)

lemma lines_unlines_id: "list_all one_line ls \<Longrightarrow> lines (unlines ls) = ls"
  by (induction ls)
     (auto simp: one_line_def lines_newline unwrap_or_def strip_suffix_Some_iff split: option.split)

text \<open>C39: the metrics page can be scraped. Whatever the counters and gauges are, reading the rendered text back
  gives exactly the fourteen samples with their values, in order; the page is served under
  \<open>GET /metrics\<close>, and any other request is answered with a fixed text.\<close>

theorem metrics_page_scrapes:
  "scrape (render m p) =
     [(''budu_requests_total'', unat (sn_requests m)), (''budu_allowed_total'', unat (sn_allowed m)),
      (''budu_blocked_total'', unat (sn_blocked m)), (''budu_ratelimited_total'', unat (sn_ratelimited m)),
      (''budu_upstream_errors_total'', unat (sn_upstream_errors m)),
      (''budu_would_block_total'', unat (sn_would_block m)), (''budu_whitelisted_total'', unat (sn_whitelisted m)),
      (''budu_signatures'', pm_signatures p), (''budu_rules'', pm_rules p),
      (''budu_rule_log_matches_total'', unat (pm_rule_log_matches p)), (''budu_blocklist_entries'', pm_blocklist p),
      (''budu_allowlist_entries'', pm_allowlist p), (''budu_rate_buckets'', unat (pm_rate_buckets p)),
      (''budu_counters'', unat (pm_counters p))] \<and>
   (if hr_method req = ''GET'' \<and> u_path (hr_uri req) = ''/metrics'' then
      \<exists>b. hp_body (route E req s) = FullBody b \<and>
        scrape b = scrape (render (snapshot (ps_metrics s)) (pipeline_metrics_of E (ps_waf s)))
    else hp_body (route E req s) \<in> {FullBody (''ok'' @ [nl]), FullBody (''not found'' @ [nl])})"
proof
  show "if hr_method req = ''GET'' \<and> u_path (hr_uri req) = ''/metrics'' then
      \<exists>b. hp_body (route E req s) = FullBody b \<and>
        scrape b = scrape (render (snapshot (ps_metrics s)) (pipeline_metrics_of E (ps_waf s)))
    else hp_body (route E req s) \<in> {FullBody (''ok'' @ [nl]), FullBody (''not found'' @ [nl])}"
    by (simp add: route_def text_response_def)
  show "scrape (render m p) =
     [(''budu_requests_total'', unat (sn_requests m)), (''budu_allowed_total'', unat (sn_allowed m)),
      (''budu_blocked_total'', unat (sn_blocked m)), (''budu_ratelimited_total'', unat (sn_ratelimited m)),
      (''budu_upstream_errors_total'', unat (sn_upstream_errors m)),
      (''budu_would_block_total'', unat (sn_would_block m)), (''budu_whitelisted_total'', unat (sn_whitelisted m)),
      (''budu_signatures'', pm_signatures p), (''budu_rules'', pm_rules p),
      (''budu_rule_log_matches_total'', unat (pm_rule_log_matches p)), (''budu_blocklist_entries'', pm_blocklist p),
      (''budu_allowlist_entries'', pm_allowlist p), (''budu_rate_buckets'', unat (pm_rate_buckets p)),
      (''budu_counters'', unat (pm_counters p))]"
    unfolding scrape_def render_def
    by (subst lines_unlines_id)
       (simp_all add: one_line_sample map_filter_simps scrape_comment scrape_sample)
qed

end
