(* ===== verification/Ban.thy ===== *)
theory Ban
  imports Pipeline
begin

text \<open>
  \<open>crates/budu/src/ban.rs\<close>: the commands that edit the block list file (\<open>ban\<close>, \<open>unban\<close>, \<open>bans\<close>), the reload
  signal and the pid file. The files are a map from paths to their bytes; what the operating system
  adds (the clock, the process id, failing writes, the \<open>kill\<close> command) is the record \<open>os_env\<close>. The
  messages printed are not modelled, only what \<open>bans\<close> lists; an error is the constructor for the
  place that raises it. Shown: a command changes the list the proxy reads exactly as it says.
\<close>

section \<open>The world of the commands\<close>

record ban_world =
  bw_files :: "string \<rightharpoonup> bytes"
  bw_hups :: "int list"

text \<open>\<open>os_create\<close> and \<open>os_rename\<close> give the error of the call, if it fails; \<open>os_write\<close> the error and what
  was written when a write breaks off; \<open>os_kill\<close> what running \<open>kill -s HUP\<close> gives: an error, or whether
  it succeeded.\<close>

record os_env =
  os_now :: u64
  os_pid :: u32
  os_create :: "string \<Rightarrow> string option"
  os_write :: "string \<Rightarrow> bytes \<Rightarrow> (string \<times> bytes) option"
  os_rename :: "string \<Rightarrow> string \<Rightarrow> string option"
  os_kill :: "int \<Rightarrow> string + bool"

datatype ban_error =
    NoBlocklistFile
  | InvalidTarget string
  | InvalidDuration string
  | CreateFailed string string
  | WriteFailed string
  | RenameFailed string string
  | NoPidfile
  | PidfileUnreadable string string
  | PidfileNoPid string string
  | StalePidfile int string
  | KillNotRun string
  | KillFailed int
  | PidfileWriteFailed string string

definition read_to_string :: "ban_world \<Rightarrow> string \<Rightarrow> string + string" where
  "read_to_string W path =
     (case bw_files W path of
        None \<Rightarrow> Inl ''No such file or directory''
      | Some b \<Rightarrow> if valid_utf8 b then Inr b else Inl ''stream did not contain valid UTF-8'')"

text \<open>\<open>Path::with_extension\<close>: the last component loses what follows its last dot, unless that dot is
  its first character, and gets the new extension. The text before it is kept, trailing slashes and \<open>/.\<close>
  are dropped.\<close>

fun drop_slashes :: "string \<Rightarrow> string" where
  "drop_slashes (c # d # r) =
     (if c = CHR ''/'' then drop_slashes (d # r)
      else if c = CHR ''.'' \<and> d = CHR ''/'' then drop_slashes r
      else c # d # r)"
| "drop_slashes s = s"

definition with_extension :: "string \<Rightarrow> string \<Rightarrow> string" where
  "with_extension p ext =
     (let r = drop_slashes (rev p);
          base = rev (takeWhile (\<lambda>c. c \<noteq> CHR ''/'') r);
          dir = rev (dropWhile (\<lambda>c. c \<noteq> CHR ''/'') r);
          stem = rev (tl (dropWhile (\<lambda>c. c \<noteq> CHR ''.'') (rev base)))
      in if base = [] \<or> base = ''.'' \<or> base = ''..'' then p
         else dir @ (if CHR ''.'' \<in> set (tl base) then stem else base) @ ''.'' @ ext)"

section \<open>Arguments and lines\<close>

definition blocklist_path :: "'n config \<Rightarrow> ban_error + string" where
  "blocklist_path cfg =
     (let p = trim (blocklist_file (reputation cfg)) in if p = [] then Inl NoBlocklistFile else Inr p)"

definition parse_target :: "('h, 'n, 'z) net_deps_scheme \<Rightarrow> string \<Rightarrow> ban_error + 'n" where
  "parse_target D s = (case parse_net D s of None \<Rightarrow> Inl (InvalidTarget s) | Some n \<Rightarrow> Inr n)"

definition parse_duration :: "string \<Rightarrow> ban_error + u64" where
  "parse_duration s0 =
     (let s = trim s0 in
      case parse_u64 s of
        Some n \<Rightarrow> Inr (of_nat n)
      | None \<Rightarrow>
          (let mult = (if s = [] then None
               else if last s = CHR ''s'' then Some 1
               else if last s = CHR ''m'' then Some 60
               else if last s = CHR ''h'' then Some 3600
               else if last s = CHR ''d'' then Some 86400
               else None)
           in case mult of
                None \<Rightarrow> Inl (InvalidDuration s)
              | Some m \<Rightarrow>
                  (case parse_u64 (trim (butlast s)) of
                     None \<Rightarrow> Inl (InvalidDuration s)
                   | Some n \<Rightarrow> Inr (saturating_mul (of_nat n) m))))"

definition line_net :: "('h, 'n, 'z) net_deps_scheme \<Rightarrow> string \<Rightarrow> 'n option" where
  "line_net D line =
     (case split_whitespace (trim (hd (split_char (CHR ''#'') line))) of
        [] \<Rightarrow> None
      | tok # _ \<Rightarrow> parse_net D tok)"

definition without :: "('h, 'n, 'z) net_deps_scheme \<Rightarrow> string list \<Rightarrow> 'n \<Rightarrow> string list" where
  "without D ls target = filter (\<lambda>l. line_net D l \<noteq> Some target) ls"

section \<open>Files\<close>

definition read_lines :: "ban_world \<Rightarrow> string \<Rightarrow> string list" where
  "read_lines W path = (case read_to_string W path of Inr txt \<Rightarrow> lines txt | Inl _ \<Rightarrow> [])"

definition write_lines ::
  "os_env \<Rightarrow> string \<Rightarrow> string list \<Rightarrow> ban_world \<Rightarrow> (ban_error + unit) \<times> ban_world" where
  "write_lines os path ls W =
     (let tmp = with_extension path ''tmp'' in
      case os_create os tmp of
        Some e \<Rightarrow> (Inl (CreateFailed tmp e), W)
      | None \<Rightarrow>
          (case os_write os tmp (unlines ls) of
             Some (e, part) \<Rightarrow> (Inl (WriteFailed e), W\<lparr>bw_files := (bw_files W)(tmp \<mapsto> part)\<rparr>)
           | None \<Rightarrow>
               let W1 = W\<lparr>bw_files := (bw_files W)(tmp \<mapsto> unlines ls)\<rparr> in
               case os_rename os tmp path of
                 Some e \<Rightarrow> (Inl (RenameFailed path e), W1)
               | None \<Rightarrow>
                   (Inr (), if tmp = path then W1
                      else W1\<lparr>bw_files := (bw_files W1)(path \<mapsto> unlines ls, tmp := None)\<rparr>)))"

section \<open>Signalling the proxy\<close>

definition send_sighup :: "os_env \<Rightarrow> 'n config \<Rightarrow> ban_world \<Rightarrow> (ban_error + unit) \<times> ban_world" where
  "send_sighup os cfg W =
     (let pf = trim (pidfile (server cfg)) in
      if pf = [] then (Inl NoPidfile, W)
      else case read_to_string W pf of
        Inl e \<Rightarrow> (Inl (PidfileUnreadable pf e), W)
      | Inr raw \<Rightarrow>
          (case parse_signed (- (2 ^ 31)) (2 ^ 31 - 1) (trim raw) of
             None \<Rightarrow> (Inl (PidfileNoPid pf (trim raw)), W)
           | Some pid \<Rightarrow>
               (let comm = (case read_to_string W (''/proc/'' @ show_int pid @ ''/comm'') of
                      Inl _ \<Rightarrow> [] | Inr c \<Rightarrow> c)
                in if comm \<noteq> [] \<and> \<not> starts_with ''budu'' (trim_end comm) then
                     (Inl (StalePidfile pid (trim_end comm)), W)
                   else case os_kill os pid of
                     Inl e \<Rightarrow> (Inl (KillNotRun e), W)
                   | Inr False \<Rightarrow> (Inl (KillFailed pid), W)
                   | Inr True \<Rightarrow> (Inr (), W\<lparr>bw_hups := bw_hups W @ [pid]\<rparr>))))"

text \<open>A failed reload is a warning only.\<close>

definition apply_edit :: "os_env \<Rightarrow> 'n config \<Rightarrow> bool \<Rightarrow> ban_world \<Rightarrow> ban_world" where
  "apply_edit os cfg reload W = (if reload then snd (send_sighup os cfg W) else W)"

section \<open>The commands\<close>

definition ban ::
  "('h, 'n, 'z) net_deps_scheme \<Rightarrow> os_env \<Rightarrow> 'n config \<Rightarrow> string \<Rightarrow> string option \<Rightarrow> bool \<Rightarrow> ban_world \<Rightarrow>
     (ban_error + unit) \<times> ban_world" where
  "ban D os cfg target duration reload W =
     (case parse_target D target of
        Inl e \<Rightarrow> (Inl e, W)
      | Inr n \<Rightarrow>
     (case blocklist_path cfg of
        Inl e \<Rightarrow> (Inl e, W)
      | Inr path \<Rightarrow>
     (let ls = without D (read_lines W path) n;
          entry = (case duration of
             Some d \<Rightarrow> (case parse_duration d of
                 Inl e \<Rightarrow> Inl e
               | Inr secs \<Rightarrow>
                   Inr (net_display D n @ '' until='' @ show_nat (unat (saturating_add (os_now os) secs))))
           | None \<Rightarrow> Inr (net_display D n))
      in case entry of
           Inl e \<Rightarrow> (Inl e, W)
         | Inr l \<Rightarrow>
             (case write_lines os path (ls @ [l]) W of
                (Inl e, W1) \<Rightarrow> (Inl e, W1)
              | (Inr _, W1) \<Rightarrow> (Inr (), apply_edit os cfg reload W1)))))"

text \<open>The result is the number of lines removed.\<close>

definition unban ::
  "('h, 'n, 'z) net_deps_scheme \<Rightarrow> os_env \<Rightarrow> 'n config \<Rightarrow> string \<Rightarrow> bool \<Rightarrow> ban_world \<Rightarrow>
     (ban_error + nat) \<times> ban_world" where
  "unban D os cfg target reload W =
     (case parse_target D target of
        Inl e \<Rightarrow> (Inl e, W)
      | Inr n \<Rightarrow>
     (case blocklist_path cfg of
        Inl e \<Rightarrow> (Inl e, W)
      | Inr path \<Rightarrow>
     (let before = read_lines W path; after = without D before n; removed = length before - length after in
      if removed = 0 then (Inr 0, W)
      else case write_lines os path after W of
        (Inl e, W1) \<Rightarrow> (Inl e, W1)
      | (Inr _, W1) \<Rightarrow> (Inr removed, apply_edit os cfg reload W1))))"

datatype ban_state = Permanent | ExpiresIn u64 u64 | Expired u64

definition list_line :: "('h, 'n, 'z) net_deps_scheme \<Rightarrow> u64 \<Rightarrow> string \<Rightarrow> ('n \<times> ban_state) option" where
  "list_line D now line =
     (let body = trim (hd (split_char (CHR ''#'') line)) in
      if body = [] then None
      else case line_net D line of
        None \<Rightarrow> None
      | Some n \<Rightarrow>
          (let v = (case List.map_filter (strip_prefix ''until='') (split_whitespace body) of [] \<Rightarrow> None | x # _ \<Rightarrow> Some x);
               u = map_option of_nat (Option.bind v parse_u64)
           in Some (n, case u of
                None \<Rightarrow> Permanent
              | Some t \<Rightarrow> if t > now then ExpiresIn (t - now) t else Expired t)))"

definition bans ::
  "('h, 'n, 'z) net_deps_scheme \<Rightarrow> os_env \<Rightarrow> 'n config \<Rightarrow> ban_world \<Rightarrow> ban_error + ('n \<times> ban_state) list" where
  "bans D os cfg W =
     (case blocklist_path cfg of
        Inl e \<Rightarrow> Inl e
      | Inr path \<Rightarrow> Inr (List.map_filter (list_line D (os_now os)) (read_lines W path)))"

section \<open>The pid file\<close>

definition pidfile_write ::
  "os_env \<Rightarrow> string \<Rightarrow> ban_world \<Rightarrow> (ban_error + string option) \<times> ban_world" where
  "pidfile_write os path0 W =
     (let path = trim path0 in
      if path = [] then (Inr None, W)
      else case os_create os path of
        Some e \<Rightarrow> (Inl (PidfileWriteFailed path e), W)
      | None \<Rightarrow> (Inr (Some path), W\<lparr>bw_files := (bw_files W)(path \<mapsto> show_nat (unat (os_pid os)) @ [nl])\<rparr>))"

definition pidfile_drop :: "string option \<Rightarrow> ban_world \<Rightarrow> ban_world" where
  "pidfile_drop p W = (case p of None \<Rightarrow> W | Some path \<Rightarrow> W\<lparr>bw_files := (bw_files W)(path := None)\<rparr>)"

section \<open>Lines and entries\<close>

lemma split_whitespace_trim_nonempty: "trim s \<noteq> [] \<Longrightarrow> split_whitespace (trim s) \<noteq> []"
proof
  assume ne: "trim s \<noteq> []" and e: "split_whitespace (trim s) = []"
  have "ws_len (trim s) = 0"
    using prefix_trim_end [of "trim_start s"] ws_len_prefix_0 [of "trim s" "trim_start s"]
    by (simp add: trim_def)
  have acc: "cur \<noteq> [] \<Longrightarrow> split_ws_aux cur t \<noteq> []" for cur t
  proof (induction cur t rule: split_ws_aux.induct)
    case (1 cur t)
    then show ?case by (subst split_ws_aux.simps) auto
  qed
  have "split_ws_aux [] (trim s) = split_ws_aux [hd (trim s)] (tl (trim s))"
    using ne \<open>ws_len (trim s) = 0\<close> by (subst split_ws_aux.simps) simp
  with acc [of "[hd (trim s)]"] e show False by (simp add: split_whitespace_def)
qed

lemma split_whitespace_Nil [simp]: "split_whitespace [] = []"
  by (simp add: split_whitespace_def split_ws_aux.simps)

lemma parse_line_net: "parse_line D f now l = Some e \<Longrightarrow> line_net D l = Some (net e)"
  using split_whitespace_trim_nonempty [of "hd (split_char (CHR ''#'') l)"]
  by (auto simp: parse_line_def line_net_def Let_def split: if_splits option.splits list.splits)

text \<open>The list the proxy reads from some lines; removing the lines of a network removes its entries.\<close>

abbreviation entries :: "('h, 'n, 'z) net_deps_scheme \<Rightarrow> u64 \<Rightarrow> string list \<Rightarrow> 'n block_entry list" where
  "entries D t ls \<equiv> List.map_filter (parse_line D True t) ls"

lemma entries_without: "entries D t (without D ls n) = filter (\<lambda>e. net e \<noteq> n) (entries D t ls)"
proof (induction ls)
  case (Cons l ls)
  then show ?case
    using parse_line_net [of D True t l]
    by (cases "parse_line D True t l") (auto simp: without_def List.map_filter_simps)
qed (simp add: without_def List.map_filter_simps)

text \<open>What the crate \<open>ipnet\<close> promises of the text of a network: \<open>Display\<close> prints one token that \<open>FromStr\<close>
  reads back.\<close>

definition net_text_ok :: "('h, 'n, 'z) net_deps_scheme \<Rightarrow> 'n \<Rightarrow> bool" where
  "net_text_ok D n \<longleftrightarrow> net_display D n \<noteq> [] \<and> net_parse D (net_display D n) = Some n \<and>
     (\<forall>c\<in>set (net_display D n). is_ascii c \<and> \<not> ascii_ws c \<and> c \<noteq> CHR ''#'')"

lemma net_text_line:
  assumes "net_text_ok D n"
  shows "ws_free (net_display D n)" "net_display D n \<noteq> []" "CHR ''#'' \<notin> set (net_display D n)"
    "nl \<notin> set (net_display D n)" "parse_net D (net_display D n) = Some n" "valid_utf8 (net_display D n)"
proof -
  have cs: "\<forall>c\<in>set (net_display D n). is_ascii c \<and> \<not> ascii_ws c \<and> c \<noteq> CHR ''#''" and ne: "net_display D n \<noteq> []"
    and p: "net_parse D (net_display D n) = Some n"
    using assms unfolding net_text_ok_def by blast+
  show "ws_free (net_display D n)" using cs by (intro ws_free_ascii) blast
  have "list_all is_ascii (net_display D n)" using cs by (simp add: list_all_iff)
  then show "valid_utf8 (net_display D n)" by (rule valid_utf8_ascii)
  have "ascii_ws nl" by (simp add: nl_def ascii_ws_def bv_char_of)
  with cs show "nl \<notin> set (net_display D n)" by blast
  show "CHR ''#'' \<notin> set (net_display D n)" using cs by blast
  show "net_display D n \<noteq> []" by (rule ne)
  show "parse_net D (net_display D n) = Some n" using p by (simp add: parse_net_def)
qed

lemma parse_permanent_line:
  assumes "net_text_ok D n"
  shows "parse_line D True now (net_display D n) = Some \<lparr>net = n, until = None\<rparr>"
proof -
  note t = net_text_line [OF assms]
  have "split_whitespace (net_display D n) = [net_display D n]"
    using split_whitespace_join [of "[net_display D n]"] t(1,2) by simp
  moreover have "trim (net_display D n) = net_display D n"
  proof (rule trim_id)
    show "ws_len (net_display D n) = 0" using t(1) unfolding ws_free_def by blast
    have "last (net_display D n) \<in> set (net_display D n)" using t(2) by simp
    with assms show "is_ascii (last (net_display D n))" "\<not> ascii_ws (last (net_display D n))"
      unfolding net_text_ok_def by blast+
  qed (rule t(2))
  ultimately show ?thesis
    using t by (simp add: parse_line_def split_char_hd takeWhile_no_hash line_until_def)
qed

section \<open>What the commands do to the list\<close>

text \<open>A write that succeeds leaves exactly the lines, and the proxy reads them back.\<close>

lemma write_lines_ok:
  assumes "write_lines os path ls W = (Inr u, W')"
  shows "bw_files W' path = Some (unlines ls)"
  using assms by (auto simp: write_lines_def Let_def split: option.splits if_splits)

lemma send_sighup_files: "bw_files (snd (send_sighup os cfg W)) = bw_files W"
  by (simp add: send_sighup_def Let_def split: sum.split option.split bool.split)

lemma apply_edit_files [simp]: "bw_files (apply_edit os cfg reload W) = bw_files W"
  by (simp add: apply_edit_def send_sighup_files)

lemma read_lines_text:
  assumes "bw_files W path = Some txt" "valid_utf8 txt"
  shows "read_to_string W path = Inr txt" "read_lines W path = lines txt"
  using assms by (simp_all add: read_to_string_def read_lines_def)

lemma lines_edit:
  assumes "set ls \<subseteq> set (lines txt) \<union> new" "valid_utf8 txt" "\<forall>l\<in>new. nl \<notin> set l \<and> valid_utf8 l"
  shows "\<forall>l\<in>set ls. nl \<notin> set l" "valid_utf8 (unlines ls)"
proof -
  have "nl \<notin> set l \<and> valid_utf8 l" if "l \<in> set ls" for l
    using that assms lines_elem [of l "txt"] by blast
  then show "\<forall>l\<in>set ls. nl \<notin> set l" "valid_utf8 (unlines ls)"
    by (simp_all add: valid_utf8_unlines list_all_iff)
qed

text \<open>The line \<open>ban\<close> appends, and the entry it stands for.\<close>

definition ban_line :: "('h, 'n, 'z) net_deps_scheme \<Rightarrow> 'n \<Rightarrow> u64 option \<Rightarrow> string" where
  "ban_line D n u = (case u of None \<Rightarrow> net_display D n | Some t \<Rightarrow> timed_line (net_display D n) t)"

definition ban_entry :: "u64 \<Rightarrow> 'n \<Rightarrow> u64 option \<Rightarrow> 'n block_entry list" where
  "ban_entry now n u = (if (\<exists>t. u = Some t \<and> t \<le> now) then [] else [\<lparr>net = n, until = u\<rparr>])"

lemma entries_ban_line:
  assumes "net_text_ok D n"
  shows "entries D t [ban_line D n u] = ban_entry t n u"
proof (cases u)
  case None
  then show ?thesis
    by (simp add: ban_line_def ban_entry_def parse_permanent_line [OF assms] List.map_filter_simps)
next
  case (Some x)
  with net_text_line [OF assms] show ?thesis
    by (simp add: ban_line_def ban_entry_def parse_timed_line List.map_filter_simps linorder_not_less)
qed

lemma ban_line_text:
  assumes "net_text_ok D n"
  shows "nl \<notin> set (ban_line D n u)" "valid_utf8 (ban_line D n u)"
proof -
  note t = net_text_line [OF assms]
  have "list_all is_ascii (show_nat k)" for k
    using digit_ascii [OF show_nat_digits] by (auto simp: list_all_iff)
  moreover have "list_all is_ascii (net_display D n)"
    using assms by (simp add: net_text_ok_def list_all_iff)
  ultimately have "list_all is_ascii (ban_line D n u)"
    by (simp add: ban_line_def timed_line_def is_ascii_def bv_def split: option.split)
  then show "valid_utf8 (ban_line D n u)" by (rule valid_utf8_ascii)
  show "nl \<notin> set (ban_line D n u)"
    using t(4) digit_not_nl [OF show_nat_digits]
    by (auto simp: ban_line_def timed_line_def nl_chars split: option.split)
qed

text \<open>When a ban of the given duration, started now, ends.\<close>

definition ban_until :: "os_env \<Rightarrow> string option \<Rightarrow> u64 option \<Rightarrow> bool" where
  "ban_until os duration t \<longleftrightarrow> (case duration of
     None \<Rightarrow> t = None
   | Some d \<Rightarrow> \<exists>secs. parse_duration d = Inr secs \<and> t = Some (saturating_add (os_now os) secs))"

lemma ban_ok:
  assumes "ban D os cfg target duration reload W = (Inr u, W')"
  obtains n path t where "parse_target D target = Inr n" "blocklist_path cfg = Inr path"
    "ban_until os duration t"
    "bw_files W' path = Some (unlines (without D (read_lines W path) n @ [ban_line D n t]))"
proof -
  obtain n path where np: "parse_target D target = Inr n" "blocklist_path cfg = Inr path"
    using assms by (auto simp: ban_def split: sum.splits)
  obtain t where t: "ban_until os duration t"
    and w: "(case write_lines os path (without D (read_lines W path) n @ [ban_line D n t]) W of
        (Inl e, W1) \<Rightarrow> (Inl e, W1) | (Inr _, W1) \<Rightarrow> (Inr (), apply_edit os cfg reload W1)) = (Inr u, W')"
    using assms
    by (cases duration)
       (auto simp: ban_def np ban_line_def timed_line_def ban_until_def split: sum.splits)
  then have "bw_files W' path = Some (unlines (without D (read_lines W path) n @ [ban_line D n t]))"
    by (auto split: prod.splits sum.splits dest!: write_lines_ok)
  with np t that show thesis by blast
qed

lemma unban_ok:
  assumes "unban D os cfg target reload W = (Inr k, W')"
  obtains n path where "parse_target D target = Inr n" "blocklist_path cfg = Inr path"
    "k = length (read_lines W path) - length (without D (read_lines W path) n)"
    "if k = 0 then W' = W else bw_files W' path = Some (unlines (without D (read_lines W path) n))"
proof -
  obtain n path where np: "parse_target D target = Inr n" "blocklist_path cfg = Inr path"
    using assms by (auto simp: unban_def split: sum.splits)
  let ?before = "read_lines W path" and ?after = "without D (read_lines W path) n"
  show thesis
  proof (cases "length ?before - length ?after = 0")
    case True
    with assms np show thesis by (intro that [of n path]) (simp_all add: unban_def)
  next
    case False
    obtain r W1 where w: "write_lines os path ?after W = (r, W1)"
      by (cases "write_lines os path ?after W") blast
    with assms np False obtain u where r: "r = Inr u" "k = length ?before - length ?after"
      "W' = apply_edit os cfg reload W1"
      by (cases r) (simp_all add: unban_def Let_def)
    with write_lines_ok [of os path ?after W u W1] w False np show thesis
      by (intro that [of n path]) simp_all
  qed
qed

lemma entries_lines: "\<forall>l\<in>set ls. nl \<notin> set l \<Longrightarrow> parse_blocklist D True t (unlines ls) = entries D t ls"
  by (rule parse_blocklist_unlines)

lemma ban_error_keeps:
  assumes "write_lines os path ls W = (Inl e, W')" "with_extension path ''tmp'' \<noteq> path"
  shows "bw_files W' path = bw_files W path"
  using assms by (auto simp: write_lines_def Let_def split: option.splits if_splits)

lemma write_then_apply_fails:
  "(case write_lines os path ls W of (Inl e, W1) \<Rightarrow> (Inl e, W1) | (Inr _, W1) \<Rightarrow> (Inr v, f W1)) = (Inl e, W') \<Longrightarrow>
     write_lines os path ls W = (Inl e, W')"
  by (auto split: prod.splits sum.splits)

lemma ban_fails:
  assumes "ban D os cfg target duration reload W = (Inl e, W')" "blocklist_path cfg = Inr path"
  shows "W' = W \<or> (\<exists>ls. write_lines os path ls W = (Inl e, W'))"
  using assms
  by (cases "parse_target D target"; cases duration; cases "parse_duration (the duration)")
     (auto simp: ban_def Let_def dest!: write_then_apply_fails)

lemma unban_fails:
  assumes "unban D os cfg target reload W = (Inl e, W')" "blocklist_path cfg = Inr path"
  shows "W' = W \<or> (\<exists>ls. write_lines os path ls W = (Inl e, W'))"
  using assms
  by (cases "parse_target D target")
     (auto simp: unban_def Let_def split: if_splits dest!: write_then_apply_fails)

lemma ban_refines:
  assumes "blocklist_path cfg = Inr path" "bw_files W path = Some old" "valid_utf8 old"
    and "parse_target D target = Inr n" "net_text_ok D n"
    and b: "ban D os cfg target duration reload W = (Inr u, W')"
  shows "\<exists>new t. read_to_string W' path = Inr new \<and> ban_until os duration t \<and>
    (\<forall>now. parse_blocklist D True now new =
       filter (\<lambda>e. net e \<noteq> n) (parse_blocklist D True now old) @ ban_entry now n t)"
proof -
  note rd = read_lines_text [OF assms(2,3)]
  have old: "entries D now (lines old) = parse_blocklist D True now old" for now
    by (simp add: parse_blocklist_def)
  have kept: "\<forall>l\<in>set (without D (lines old) n). nl \<notin> set l" "valid_utf8 (unlines (without D (lines old) n))"
    using lines_edit [of "without D (lines old) n" old "{}"] assms(3) by (auto simp: without_def)
  obtain n' path' t where "parse_target D target = Inr n'" "blocklist_path cfg = Inr path'"
    and t: "ban_until os duration t"
    and "bw_files W' path' = Some (unlines (without D (read_lines W path') n' @ [ban_line D n' t]))"
    by (rule ban_ok [OF b])
  then have f: "bw_files W' path = Some (unlines (without D (lines old) n @ [ban_line D n t]))"
    using assms(1,4) rd(2) by simp
  have "valid_utf8 (unlines (without D (lines old) n @ [ban_line D n t]))"
    using kept(2) ban_line_text [OF assms(5)] by (simp add: valid_utf8_unlines del: unlines_append unlines_simps)
  moreover have "parse_blocklist D True now (unlines (without D (lines old) n @ [ban_line D n t])) =
      filter (\<lambda>e. net e \<noteq> n) (parse_blocklist D True now old) @ ban_entry now n t" for now
  proof -
    have "\<forall>l\<in>set (without D (lines old) n @ [ban_line D n t]). nl \<notin> set l"
      using kept(1) ban_line_text [OF assms(5)] by simp
    from entries_lines [OF this, of D now] show ?thesis
      by (simp only: map_filter_append entries_without old entries_ban_line [OF assms(5)])
  qed
  ultimately show ?thesis using f t by (auto simp: read_to_string_def)
qed

lemma unban_refines:
  assumes "blocklist_path cfg = Inr path" "bw_files W path = Some old" "valid_utf8 old"
    and "parse_target D target = Inr n"
    and b: "unban D os cfg target reload W = (Inr k, W')"
  shows "\<exists>new. read_to_string W' path = Inr new \<and>
    (\<forall>now. parse_blocklist D True now new = filter (\<lambda>e. net e \<noteq> n) (parse_blocklist D True now old))"
proof -
  note rd = read_lines_text [OF assms(2,3)]
  have old: "entries D now (lines old) = parse_blocklist D True now old" for now
    by (simp add: parse_blocklist_def)
  have kept: "\<forall>l\<in>set (without D (lines old) n). nl \<notin> set l" "valid_utf8 (unlines (without D (lines old) n))"
    using lines_edit [of "without D (lines old) n" old "{}"] assms(3) by (auto simp: without_def)
  have same: "entries D now (without D (lines old) n) = filter (\<lambda>e. net e \<noteq> n) (parse_blocklist D True now old)" for now
    by (simp add: entries_without old)
  consider "W' = W" "length (lines old) - length (without D (lines old) n) = 0"
    | "bw_files W' path = Some (unlines (without D (lines old) n))"
  proof (rule unban_ok [OF b])
    fix n' path' assume "parse_target D target = Inr n'" "blocklist_path cfg = Inr path'"
      "k = length (read_lines W path') - length (without D (read_lines W path') n')"
      "if k = 0 then W' = W else bw_files W' path' = Some (unlines (without D (read_lines W path') n'))"
    with assms(1,4) rd(2) that show thesis by (simp split: if_splits)
  qed
  then show ?thesis
  proof cases
    case 1
    then have "length (filter (\<lambda>l. line_net D l \<noteq> Some n) (lines old)) = length (lines old)"
      using length_filter_le [of "\<lambda>l. line_net D l \<noteq> Some n" "lines old"] by (simp add: without_def)
    then have "without D (lines old) n = lines old"
      by (metis without_def filter_True length_filter_less less_irrefl)
    with 1(1) same rd(1) old show ?thesis by metis
  next
    case 2
    with kept same entries_lines [OF kept(1), of D] show ?thesis by (simp add: read_to_string_def)
  qed
qed

text \<open>C6: editing the list file is editing the list. Seen through the reader of the proxy, a successful
  \<open>ban\<close> of a network is: its old entries removed, one entry appended, permanent or with the end of its
  duration (saturating), absent once that has passed; a successful \<open>unban\<close> is: its entries removed; every
  other entry stays, in order, and the proxy can read the file. A command that fails leaves the list
  file as it was, unless its name ends in \<open>.tmp\<close> (then the temporary file is the list itself).\<close>

theorem list_edits_refine:
  assumes "blocklist_path cfg = Inr path" "bw_files W path = Some old" "valid_utf8 old"
    and "parse_target D target = Inr n" "net_text_ok D n"
  shows "(\<forall>u W'. ban D os cfg target duration reload W = (Inr u, W') \<longrightarrow>
      (\<exists>new t. read_to_string W' path = Inr new \<and>
         ban_until os duration t \<and>
         (\<forall>now. parse_blocklist D True now new =
            filter (\<lambda>e. net e \<noteq> n) (parse_blocklist D True now old) @ ban_entry now n t))) \<and>
    (\<forall>k W'. unban D os cfg target reload W = (Inr k, W') \<longrightarrow>
      (\<exists>new. read_to_string W' path = Inr new \<and>
         (\<forall>now. parse_blocklist D True now new = filter (\<lambda>e. net e \<noteq> n) (parse_blocklist D True now old)))) \<and>
    (with_extension path ''tmp'' \<noteq> path \<longrightarrow>
      (\<forall>e W'. (ban D os cfg target duration reload W = (Inl e, W') \<or> unban D os cfg target reload W = (Inl e, W')) \<longrightarrow>
         bw_files W' path = Some old))"
proof (intro conjI allI impI)
  show "\<exists>new t. read_to_string W' path = Inr new \<and> ban_until os duration t \<and>
      (\<forall>now. parse_blocklist D True now new =
         filter (\<lambda>e. net e \<noteq> n) (parse_blocklist D True now old) @ ban_entry now n t)"
    if "ban D os cfg target duration reload W = (Inr u, W')" for u W'
    by (rule ban_refines [OF assms that])
  show "\<exists>new. read_to_string W' path = Inr new \<and>
      (\<forall>now. parse_blocklist D True now new = filter (\<lambda>e. net e \<noteq> n) (parse_blocklist D True now old))"
    if "unban D os cfg target reload W = (Inr k, W')" for k W'
    by (rule unban_refines [OF assms(1-4) that])
  show "bw_files W' path = Some old"
    if tmp: "with_extension path ''tmp'' \<noteq> path"
      and f: "ban D os cfg target duration reload W = (Inl e, W') \<or> unban D os cfg target reload W = (Inl e, W')" for e W'
  proof -
    from f have "W' = W \<or> (\<exists>ls. write_lines os path ls W = (Inl e, W'))"
      using ban_fails [OF _ assms(1)] unban_fails [OF _ assms(1)] by (elim disjE) blast+
    with ban_error_keeps [OF _ tmp] assms(2) show ?thesis by auto
  qed
qed

section \<open>A concrete run\<close>

definition os_inst :: os_env where
  "os_inst = \<lparr>os_now = 50, os_pid = 7, os_create = (\<lambda>_. None), os_write = (\<lambda>_ _. None), os_rename = (\<lambda>_ _. None),
     os_kill = (\<lambda>_. Inr True)\<rparr>"

definition ban_config :: "cidr config" where
  "ban_config = sample_config\<lparr>reputation := (reputation sample_config)\<lparr>blocklist_file := ''bans''\<rparr>\<rparr>"

definition ban_files :: ban_world where
  "ban_files = \<lparr>bw_files = [''bans'' \<mapsto> ''0.0.0.8 until=9'' @ [nl]], bw_hups = []\<rparr>"

lemma ban_inst:
  "blocklist_path ban_config = Inr ''bans''" "trim ''bans'' = ''bans''"
  "bw_files ban_files ''bans'' = Some (''0.0.0.8 until=9'' @ [nl])" "valid_utf8 (''0.0.0.8 until=9'' @ [nl])"
  "parse_target inst ''0.0.0.7'' = Inr (V4 7, 32)" "net_text_ok inst (V4 7, 32)"
proof -
  show t: "trim ''bans'' = ''bans''" by code_simp
  show "blocklist_path ban_config = Inr ''bans''"
    by (simp add: blocklist_path_def ban_config_def sample_config_def t)
  show "bw_files ban_files ''bans'' = Some (''0.0.0.8 until=9'' @ [nl])" by (simp add: ban_files_def)
  show "valid_utf8 (''0.0.0.8 until=9'' @ [nl])"
    by (rule valid_utf8_ascii) (simp add: is_ascii_def bv_def nl_def)
  have "n_parse ''0.0.0.7'' = None" "parse_ip ''0.0.0.7'' = Some (V4 7)" by code_simp+
  then show "parse_target inst ''0.0.0.7'' = Inr (V4 7, 32)"
    by (simp add: parse_target_def parse_net_def n_of_ip_def)
  have "n_parse ''0.0.0.7/32'' = Some (V4 7, 32)" by code_simp
  moreover have "net_display inst (V4 7, 32) = ''0.0.0.7/32''"
    by (simp add: inst_def show_ip_def show_v4_def v4_octets_def show_nat_eval)
  ultimately show "net_text_ok inst (V4 7, 32)"
    by (simp add: net_text_ok_def is_ascii_def ascii_ws_def bv_def)
qed

lemma ban_inst_run: "\<exists>W'. ban inst os_inst ban_config ''0.0.0.7'' (Some ''1h'') False ban_files = (Inr (), W')"
proof -
  have "trim ''1h'' = ''1h''" "trim ''1'' = ''1''" by code_simp+
  then have "parse_u64 (trim ''1h'') = None" "trim ''1h'' = ''1h''" "parse_u64 (trim ''1'') = Some 1"
    by (simp_all add: parse_unsigned_def digit_val_def bv_def)
  then have "parse_duration ''1h'' = Inr (saturating_mul 1 3600)"
    by (simp add: parse_duration_def)
  then show ?thesis
    using ban_inst(1,5)
    by (simp add: ban_def write_lines_def os_inst_def apply_edit_def Let_def split: prod.split)
qed

theorem list_edits_refine_witness:
  "\<exists>W' new t. ban inst os_inst ban_config ''0.0.0.7'' (Some ''1h'') False ban_files = (Inr (), W') \<and>
     read_to_string W' ''bans'' = Inr new \<and> ban_until os_inst (Some ''1h'') t \<and>
     parse_blocklist inst True 60 new =
       filter (\<lambda>e. net e \<noteq> (V4 7, 32)) (parse_blocklist inst True 60 (''0.0.0.8 until=9'' @ [nl])) @
       ban_entry 60 (V4 7, 32) t"
proof -
  obtain W' where b: "ban inst os_inst ban_config ''0.0.0.7'' (Some ''1h'') False ban_files = (Inr (), W')"
    using ban_inst_run by blast
  from list_edits_refine [OF ban_inst(1,3-6), THEN conjunct1, rule_format, OF b] b show ?thesis by blast
qed



end
