(* ===== verification/Modsec.thy ===== *)
theory Modsec
  imports Rule_Compile Instances
begin

text \<open>
  \<open>crates/budu-rules/src/modsec.rs\<close>: the importer of ModSecurity rules, from the text of the \<open>.conf\<close>
  files to the rules it emits. Reasons and warnings are constructors for the place that gives them;
  \<open>toml::to_string\<close> is a parameter. Texts are UTF-8; the separators are ASCII or white space, so the
  loops over characters are loops over bytes. The letters that number the rules of a rule with
  several variables wrap at a byte, as an optimised build does.
\<close>

section \<open>Emitted and parsed rules\<close>

record emitted_cond =
  em_field :: string
  em_name :: "string option"
  em_op :: string
  em_value :: "string option"
  em_negate :: bool
  em_transform :: "string list"

record emitted_rule =
  er_id :: string
  er_phase :: "string option"
  er_action :: string
  er_status :: "u16 option"
  er_msg :: string
  er_score :: u32
  er_when :: "emitted_cond list"

datatype skip_reason =
    MalformedSecRule
  | PhaseNotSupported nat
  | MultiVariableChain
  | NoVariableTargets
  | MacroArgument string
  | MultipleCidrs
  | FromFile string
  | UnsupportedOperator string

record skip_note =
  sk_id :: string
  sk_reason :: skip_reason

text \<open>A warning names the operator and the operation that needs libinjection.\<close>

type_synonym warning = "string \<times> string"

record convert_report =
  cr_toml :: string
  cr_converted :: nat
  cr_skipped :: "skip_note list"
  cr_warnings :: "warning list"

record raw_var =
  rv_name :: string
  rv_selector :: "string option"
  rv_count :: bool
  rv_exclude :: bool

record parsed_rule =
  pr_vars :: "raw_var list"
  pr_op_name :: string
  pr_op_arg :: string
  pr_negate :: bool
  pr_transforms :: "string list"
  pr_id :: "string option"
  pr_phase :: nat
  pr_disrupt :: bool
  pr_allow :: bool
  pr_pass :: bool
  pr_status :: "u16 option"
  pr_msg :: string
  pr_score :: "u32 option"
  pr_chain :: bool

section \<open>Tokenizers\<close>

fun join_loop :: "string list \<Rightarrow> string \<Rightarrow> string list" where
  "join_loop [] cur = (if cur = [] then [] else [cur])"
| "join_loop (raw # rest) cur =
     (let line = unwrap_or (strip_suffix [cr] raw) raw in
      case strip_suffix [CHR 0x5C] line of
        Some pre \<Rightarrow> join_loop rest (cur @ pre @ '' '')
      | None \<Rightarrow> (cur @ line) # join_loop rest [])"

definition join_continuations :: "string \<Rightarrow> string list" where
  "join_continuations input = join_loop (lines input) []"

definition directive_arg :: "string \<Rightarrow> string \<Rightarrow> string option" where
  "directive_arg line name =
     (case strip_prefix name line of
        None \<Rightarrow> None
      | Some rest \<Rightarrow>
          (let trimmed = trim_start rest in
           if length rest = length trimmed then None else Some trimmed))"

text \<open>The two inner loops: the token read and the input left.\<close>

fun quoted :: "char \<Rightarrow> string \<Rightarrow> string \<times> string" where
  "quoted q [] = ([], [])"
| "quoted q [ch] = (if ch = CHR 0x5C then ([CHR 0x5C], []) else if ch = q then ([], []) else ([ch], []))"
| "quoted q (ch # n # r) =
     (if ch = CHR 0x5C then
        (case quoted q r of (t, u) \<Rightarrow> ((if n = q then [n] else [CHR 0x5C, n]) @ t, u))
      else if ch = q then ([], n # r)
      else (case quoted q (n # r) of (t, u) \<Rightarrow> (ch # t, u)))"

fun unquoted :: "string \<Rightarrow> string \<times> string" where
  "unquoted [] = ([], [])"
| "unquoted (ch # r) =
     (if ws_len (ch # r) \<noteq> 0 then ([], ch # r) else case unquoted r of (t, u) \<Rightarrow> (ch # t, u))"

lemma quoted_length: "length (snd (quoted q s)) \<le> length s"
  by (induction q s rule: quoted.induct) (auto split: prod.splits)

lemma unquoted_length: "length (snd (unquoted s)) \<le> length s"
  by (induction s) (auto split: prod.splits simp del: ws_len.simps)

lemma quoted_less: "length (snd (quoted q s)) < Suc (length s)"
  using quoted_length [of q s] by simp

lemma unquoted_less: "s \<noteq> [] \<Longrightarrow> ws_len s = 0 \<Longrightarrow> length (snd (unquoted s)) < length s"
  using unquoted_length by (cases s) (auto split: prod.splits simp: less_Suc_eq_le simp del: ws_len.simps, metis snd_conv)

function tokenize :: "string \<Rightarrow> string list" where
  "tokenize s =
     (if s = [] then []
      else if ws_len s \<noteq> 0 then tokenize (drop (ws_len s) s)
      else if hd s = CHR 0x22 \<or> hd s = CHR 0x27 then
        fst (quoted (hd s) (tl s)) # tokenize (snd (quoted (hd s) (tl s)))
      else fst (unquoted s) # tokenize (snd (unquoted s)))"
  by pat_completeness auto
termination
  by (relation "measure length")
     (auto simp: ws_len_pos quoted_less unquoted_less neq_Nil_conv simp del: ws_len.simps)

declare tokenize.simps [simp del]

definition parse_var :: "string \<Rightarrow> raw_var" where
  "parse_var part =
     (let p = trim part;
          (cnt, excl, q) = (case strip_prefix ''&'' p of
             Some r \<Rightarrow> (True, False, r)
           | None \<Rightarrow> (case strip_prefix ''!'' p of Some r \<Rightarrow> (False, True, r) | None \<Rightarrow> (False, False, p)))
      in case split_once (CHR '':'') q of
           Some (n, sel) \<Rightarrow> \<lparr>rv_name = n, rv_selector = Some (trim_matches (CHR 0x27) sel), rv_count = cnt, rv_exclude = excl\<rparr>
         | None \<Rightarrow> \<lparr>rv_name = q, rv_selector = None, rv_count = cnt, rv_exclude = excl\<rparr>)"

definition parse_vars :: "string \<Rightarrow> raw_var list" where
  "parse_vars s = map parse_var (filter (\<lambda>p. trim p \<noteq> []) (split_char (CHR ''|'') s))"

text \<open>\<open>split_once(char::is_whitespace)\<close>.\<close>

fun split_once_ws :: "string \<Rightarrow> (string \<times> string) option" where
  "split_once_ws [] = None"
| "split_once_ws (c # r) =
     (if ws_len (c # r) \<noteq> 0 then Some ([], drop (ws_len (c # r)) (c # r))
      else map_option (apfst ((#) c)) (split_once_ws r))"

definition parse_operator :: "string \<Rightarrow> string \<times> string \<times> bool" where
  "parse_operator s0 =
     (let s1 = trim s0;
          (negate, s) = (case strip_prefix ''!'' s1 of Some r \<Rightarrow> (True, trim_start r) | None \<Rightarrow> (False, s1))
      in case strip_prefix ''@'' s of
           Some at \<Rightarrow> (case split_once_ws at of
               Some (n, a) \<Rightarrow> (n, trim a, negate)
             | None \<Rightarrow> (at, [], negate))
         | None \<Rightarrow> (''rx'', s, negate))"

definition push_action :: "string \<Rightarrow> (string \<times> string option) list" where
  "push_action raw =
     (let a = trim raw in
      if a = [] then []
      else case split_once (CHR '':'') a of
        Some (k, v) \<Rightarrow> [(trim k, Some (trim_matches (CHR 0x27) (trim v)))]
      | None \<Rightarrow> [(a, None)])"

fun action_loop :: "string \<Rightarrow> bool \<Rightarrow> string \<Rightarrow> (string \<times> string option) list" where
  "action_loop [] in_quote buf = push_action buf"
| "action_loop (c # r) in_quote buf =
     (if c = CHR 0x27 then action_loop r (\<not> in_quote) buf
      else if c = CHR '','' \<and> \<not> in_quote then push_action buf @ action_loop r in_quote []
      else action_loop r in_quote (buf @ [c]))"

definition split_actions :: "string \<Rightarrow> (string \<times> string option) list" where
  "split_actions s = action_loop s False []"

section \<open>Mapping\<close>

datatype transform_map = Keep string | NoTransform | Unsupported

definition map_transform :: "string \<Rightarrow> transform_map" where
  "map_transform t0 =
     (let t = trim t0 in
      if t = ''none'' then NoTransform
      else if t = ''lowercase'' then Keep ''lowercase''
      else if t = ''uppercase'' then Keep ''uppercase''
      else if t = ''urlDecode'' \<or> t = ''urlDecodeUni'' then Keep ''url_decode''
      else if t = ''compressWhitespace'' then Keep ''compress_ws''
      else if t = ''removeNulls'' then Keep ''remove_nulls''
      else if t = ''trim'' \<or> t = ''trimLeft'' \<or> t = ''trimRight'' then Keep ''trim''
      else Unsupported)"

definition anomaly_score :: "string \<Rightarrow> u32 option" where
  "anomaly_score setvar =
     (let lower = to_ascii_lowercase setvar in
      if \<not> contains_str lower ''anomaly_score'' then None
      else if contains_str lower ''critical_anomaly_score'' then Some 5
      else if contains_str lower ''error_anomaly_score'' then Some 4
      else if contains_str lower ''warning_anomaly_score'' then Some 3
      else if contains_str lower ''notice_anomaly_score'' then Some 2
      else if CHR ''+'' \<in> set setvar then
        (let digits = filter is_ascii_digit (rev (takeWhile (\<lambda>c. c \<noteq> CHR ''+'') (rev setvar))) in
         case parse_unsigned (2 ^ 32 - 1) digits of Some n \<Rightarrow> Some (of_nat n) | None \<Rightarrow> Some 5)
      else Some 5)"

definition apply_action :: "string \<times> string option \<Rightarrow> parsed_rule \<Rightarrow> parsed_rule" where
  "apply_action kv rule =
     (case kv of (key, val) \<Rightarrow>
      if key = ''id'' then rule\<lparr>pr_id := map_option trim val\<rparr>
      else if key = ''phase'' then
        rule\<lparr>pr_phase := (case val of
           None \<Rightarrow> 2
         | Some n \<Rightarrow> if n = ''request'' then 2 else if n = ''response'' then 4 else unwrap_or (parse_u8 (trim n)) 2)\<rparr>
      else if key = ''deny'' \<or> key = ''block'' \<or> key = ''drop'' then rule\<lparr>pr_disrupt := True\<rparr>
      else if key = ''allow'' then rule\<lparr>pr_allow := True\<rparr>
      else if key = ''pass'' then rule\<lparr>pr_pass := True\<rparr>
      else if key = ''status'' then
        (case Option.bind val (\<lambda>v. parse_u16 (trim v)) of
           Some s \<Rightarrow> rule\<lparr>pr_status := Some (of_nat s)\<rparr>
         | None \<Rightarrow> rule)
      else if key = ''msg'' then rule\<lparr>pr_msg := unwrap_or val []\<rparr>
      else if key = ''t'' then
        (case val of
           None \<Rightarrow> rule
         | Some t \<Rightarrow> (case map_transform t of
             Keep name \<Rightarrow> rule\<lparr>pr_transforms := pr_transforms rule @ [name]\<rparr>
           | NoTransform \<Rightarrow> rule\<lparr>pr_transforms := []\<rparr>
           | Unsupported \<Rightarrow> rule))
      else if key = ''setvar'' then
        (case anomaly_score (unwrap_or val []) of
           Some points \<Rightarrow> rule\<lparr>pr_score := Some points\<rparr>
         | None \<Rightarrow> rule)
      else if key = ''chain'' then rule\<lparr>pr_chain := True\<rparr>
      else rule)"

definition parse_secrule :: "string \<Rightarrow> skip_reason + parsed_rule" where
  "parse_secrule rest =
     (case tokenize rest of
        v # o' # acts \<Rightarrow>
          (case parse_operator o' of (op_name, op_arg, negate) \<Rightarrow>
             Inr (fold apply_action (split_actions (case acts of [] \<Rightarrow> [] | a # _ \<Rightarrow> a))
               \<lparr>pr_vars = parse_vars v, pr_op_name = op_name, pr_op_arg = op_arg, pr_negate = negate,
                pr_transforms = [], pr_id = None, pr_phase = 2, pr_disrupt = False, pr_allow = False,
                pr_pass = False, pr_status = None, pr_msg = [], pr_score = None, pr_chain = False\<rparr>))
      | _ \<Rightarrow> Inl MalformedSecRule)"

definition map_var :: "raw_var \<Rightarrow> (string \<times> string option) option" where
  "map_var v =
     (let upper = to_ascii_uppercase (rv_name v); sel = rv_selector v;
          pick = (\<lambda>one all. case sel of Some s \<Rightarrow> Some (one, Some s) | None \<Rightarrow> Some (all, None))
      in if rv_count v then
           (if upper \<in> {''ARGS'', ''ARGS_GET'', ''ARGS_POST''} then Some (''args_count'', None) else None)
         else
           (let r = (if upper \<in> {''ARGS'', ''ARGS_GET'', ''ARGS_POST'', ''ARGS_COMBINED''} then pick ''arg'' ''args''
              else if upper \<in> {''ARGS_NAMES'', ''ARGS_GET_NAMES'', ''ARGS_POST_NAMES''} then Some (''arg_names'', None)
              else if upper = ''QUERY_STRING'' then Some (''query'', None)
              else if upper \<in> {''REQUEST_URI'', ''REQUEST_URI_RAW''} then Some (''uri'', None)
              else if upper \<in> {''REQUEST_FILENAME'', ''REQUEST_BASENAME'', ''PATH_INFO''} then Some (''path'', None)
              else if upper = ''REQUEST_METHOD'' then Some (''method'', None)
              else if upper = ''REQUEST_BODY'' then Some (''body'', None)
              else if upper = ''REQUEST_HEADERS'' then pick ''header'' ''headers''
              else if upper = ''REQUEST_HEADERS_NAMES'' then Some (''header_names'', None)
              else if upper = ''REQUEST_COOKIES'' then pick ''cookie'' ''cookies''
              else if upper = ''REQUEST_COOKIES_NAMES'' then Some (''cookie_names'', None)
              else if upper = ''REMOTE_ADDR'' then Some (''ip'', None)
              else None)
            in case r of
                 Some (f, Some name) \<Rightarrow> if starts_with ''/'' name then None else r
               | _ \<Rightarrow> r))"

definition regex_special :: "char \<Rightarrow> bool" where
  "regex_special c \<longleftrightarrow> c \<in> {CHR 0x5C, CHR ''.'', CHR ''+'', CHR ''*'', CHR ''?'', CHR ''('', CHR '')'', CHR ''|'',
     CHR ''['', CHR '']'', CHR ''{'', CHR ''}'', CHR 0x5E, CHR ''$''}"

definition regex_escape :: "string \<Rightarrow> string" where
  "regex_escape s = concat (map (\<lambda>c. if regex_special c then [CHR 0x5C, c] else [c]) s)"

definition phrases_to_regex :: "string \<Rightarrow> string" where
  "phrases_to_regex arg =
     ''(?i)('' @ join ''|'' (filter (\<lambda>s. s \<noteq> []) (map regex_escape (split_whitespace arg))) @ '')''"

text \<open>The operators that keep their argument, with the operation each becomes.\<close>

definition operand_ops :: "(string \<times> string) list" where
  "operand_ops =
     [(''rx'', ''regex''), (''contains'', ''contains''), (''beginsWith'', ''starts_with''), (''endsWith'', ''ends_with''),
      (''streq'', ''eq''), (''eq'', ''eq''), (''gt'', ''gt''), (''lt'', ''lt''), (''ge'', ''ge''), (''le'', ''le'')]"

definition map_operator ::
  "string \<Rightarrow> string \<Rightarrow> warning list \<Rightarrow> (skip_reason + string \<times> string option) \<times> warning list" where
  "map_operator name arg warnings =
     (if contains_str arg ''%{'' then (Inl (MacroArgument arg), warnings)
      else
        let r = (case map_of operand_ops name of
                Some op \<Rightarrow> Inr (op, Some arg)
              | None \<Rightarrow> if name = ''detectSQLi'' then Inr (''detect_sqli'', None)
              else if name = ''detectXSS'' then Inr (''detect_xss'', None)
              else if name = ''pm'' then Inr (''regex'', Some (phrases_to_regex arg))
              else if name = ''ipMatch'' then
                (case filter (\<lambda>s. s \<noteq> []) (map trim (split_char (CHR '','') arg)) of
                   [one] \<Rightarrow> Inr (''cidr'', Some one)
                 | _ \<Rightarrow> Inl MultipleCidrs)
              else if name \<in> {''pmf'', ''pmFromFile'', ''ipMatchF'', ''ipMatchFromFile''} then Inl (FromFile name)
              else Inl (UnsupportedOperator name))
        in case r of
             Inl e \<Rightarrow> (Inl e, warnings)
           | Inr (op, v) \<Rightarrow>
               (Inr (op, v), if name \<in> {''detectSQLi'', ''detectXSS''} then warnings @ [(name, op)] else warnings))"

definition map_member_conditions ::
  "parsed_rule \<Rightarrow> warning list \<Rightarrow> (skip_reason + emitted_cond list) \<times> warning list" where
  "map_member_conditions m warnings =
     (case map_operator (pr_op_name m) (pr_op_arg m) warnings of
        (Inl e, ws) \<Rightarrow> (Inl e, ws)
      | (Inr (op, v), ws) \<Rightarrow>
          (let conds = List.map_filter (\<lambda>x. if rv_exclude x then None
                 else map_option (\<lambda>(f, n). \<lparr>em_field = f, em_name = n, em_op = op, em_value = v,
                   em_negate = pr_negate m, em_transform = pr_transforms m\<rparr>) (map_var x)) (pr_vars m)
           in (if conds = [] then Inl NoVariableTargets else Inr conds, ws)))"

section \<open>Building rules\<close>

fun map_members :: "parsed_rule list \<Rightarrow> warning list \<Rightarrow> (skip_reason + emitted_cond list list) \<times> warning list" where
  "map_members [] ws = (Inr [], ws)"
| "map_members (m # ms) ws =
     (case map_member_conditions m ws of
        (Inl e, w1) \<Rightarrow> (Inl e, w1)
      | (Inr cs, w1) \<Rightarrow> (case map_members ms w1 of
          (Inl e, w2) \<Rightarrow> (Inl e, w2)
        | (Inr css, w2) \<Rightarrow> (Inr (cs # css), w2)))"

text \<open>\<open>(b'a' + idx as u8) as char\<close>, in UTF-8.\<close>

definition letter :: "nat \<Rightarrow> string" where
  "letter idx =
     (let b = (97 + idx mod 256) mod 256 in
      if b < 128 then [char_of b] else [char_of (192 + b div 64), char_of (128 + b mod 64)])"

fun all_single :: "emitted_cond list list \<Rightarrow> emitted_cond list option" where
  "all_single [] = Some []"
| "all_single (cs # css) =
     (case cs of [one] \<Rightarrow> map_option ((#) one) (all_single css) | _ \<Rightarrow> None)"

definition starter_action :: "parsed_rule \<Rightarrow> string \<times> u16 option \<times> u32" where
  "starter_action starter =
     (if pr_allow starter then (''allow'', None, 0)
      else case pr_score starter of
        Some points \<Rightarrow> (''score'', None, points)
      | None \<Rightarrow>
          if pr_disrupt starter then (''block'', Some (unwrap_or (pr_status starter) 403), 0)
          else (''log'', None, 0))"

definition build_rules ::
  "parsed_rule list \<Rightarrow> warning list \<Rightarrow> (skip_reason + emitted_rule list) \<times> warning list" where
  "build_rules members warnings =
     (let starter = hd members in
      if pr_phase starter \<ge> 3 then (Inl (PhaseNotSupported (pr_phase starter)), warnings)
      else
        let id_base = (case pr_id starter of Some n \<Rightarrow> ''crs-'' @ n | None \<Rightarrow> ''crs-noid'');
            (action, status, score) = starter_action starter;
            rule = (\<lambda>i cs. \<lparr>er_id = i, er_phase = None, er_action = action, er_status = status,
              er_msg = pr_msg starter, er_score = score, er_when = cs\<rparr>)
        in case map_members members warnings of
             (Inl e, ws) \<Rightarrow> (Inl e, ws)
           | (Inr member_conds, ws) \<Rightarrow>
               if length members = 1 then
                 (let conds = hd member_conds; multi = length conds > 1 in
                  (Inr (map (\<lambda>(idx, c). rule (if multi then id_base @ ''-'' @ letter idx else id_base) [c])
                     (enumerate 0 conds)), ws))
               else (case all_single member_conds of
                   None \<Rightarrow> (Inl MultiVariableChain, ws)
                 | Some conds \<Rightarrow> (Inr [rule id_base conds], ws)))"

section \<open>The conversion\<close>

definition blank_or_comment :: "string \<Rightarrow> bool" where
  "blank_or_comment l \<longleftrightarrow> trim l = [] \<or> starts_with ''#'' (trim l)"

text \<open>The members chained to a rule and the lines left; a chained line that is no rule is consumed.\<close>

fun chain_members :: "bool \<Rightarrow> string list \<Rightarrow> parsed_rule list \<times> string list" where
  "chain_members chained [] = ([], [])"
| "chain_members chained (l # ls) =
     (if \<not> chained then ([], l # ls)
      else if blank_or_comment l then chain_members True ls
      else case map_option parse_secrule (directive_arg (trim l) ''SecRule'') of
        Some (Inr r) \<Rightarrow> (case chain_members (pr_chain r) ls of (rs, rest) \<Rightarrow> (r # rs, rest))
      | _ \<Rightarrow> ([], ls))"

lemma chain_members_length: "length (snd (chain_members chained ls)) \<le> length ls"
  by (induction chained ls rule: chain_members.induct)
     (auto split: option.splits sum.splits prod.splits)

lemma chain_members_less [termination_simp]: "length (snd (chain_members chained ls)) < Suc (length ls)"
  using chain_members_length [of chained ls] by simp

record convert_acc =
  ca_rules :: "emitted_rule list"
  ca_converted :: nat
  ca_skipped :: "skip_note list"
  ca_warnings :: "warning list"

fun convert_loop :: "string list \<Rightarrow> convert_acc \<Rightarrow> convert_acc" where
  "convert_loop [] acc = acc"
| "convert_loop (l # ls) acc =
     (if blank_or_comment l then convert_loop ls acc
      else case directive_arg (trim l) ''SecRule'' of
        None \<Rightarrow> convert_loop ls acc
      | Some rest \<Rightarrow>
          (case parse_secrule rest of
             Inl e \<Rightarrow> convert_loop ls (acc\<lparr>ca_skipped := ca_skipped acc @ [\<lparr>sk_id = ''?'', sk_reason = e\<rparr>]\<rparr>)
           | Inr starter \<Rightarrow>
               (let members = starter # fst (chain_members (pr_chain starter) ls);
                    left = snd (chain_members (pr_chain starter) ls)
                in case build_rules members (ca_warnings acc) of
                     (Inr emitted, ws) \<Rightarrow> convert_loop left
                       (acc\<lparr>ca_rules := ca_rules acc @ emitted, ca_converted := ca_converted acc + 1, ca_warnings := ws\<rparr>)
                   | (Inl e, ws) \<Rightarrow> convert_loop left
                       (acc\<lparr>ca_skipped := ca_skipped acc @ [\<lparr>sk_id = unwrap_or (pr_id starter) ''?'', sk_reason = e\<rparr>],
                          ca_warnings := ws\<rparr>))))"

definition convert_run :: "string \<Rightarrow> convert_acc" where
  "convert_run input = convert_loop (join_continuations input)
     \<lparr>ca_rules = [], ca_converted = 0, ca_skipped = [], ca_warnings = []\<rparr>"

text \<open>The TOML encoder is the parameter \<open>to_toml\<close>; it may fail, which gives the empty text.\<close>

definition convert :: "(emitted_rule list \<Rightarrow> string option) \<Rightarrow> string \<Rightarrow> convert_report" where
  "convert to_toml input =
     (let acc = convert_run input
      in \<lparr>cr_toml = (if ca_rules acc = [] then [] else unwrap_or (to_toml (ca_rules acc)) []),
          cr_converted = ca_converted acc, cr_skipped = ca_skipped acc, cr_warnings = ca_warnings acc\<rparr>)"

section \<open>Emitted rules and the rule compiler\<close>

text \<open>Reading an emitted rule back, with the defaults of the rule file's schema.\<close>

definition read_cond :: "emitted_cond \<Rightarrow> cond_def" where
  "read_cond c = \<lparr>cd_field = em_field c, cd_name = unwrap_or (em_name c) [], cd_op = em_op c,
     cd_value = unwrap_or (em_value c) [], cd_values = [], cd_negate = em_negate c,
     cd_transform = em_transform c, cd_tz = []\<rparr>"

definition read_action :: "string \<Rightarrow> action_kind option" where
  "read_action a = map_of [(''block'', AkBlock), (''allow'', AkAllow), (''log'', AkLog),
     (''rate_limit'', AkRateLimit), (''score'', AkScore), (''incr'', AkIncr)] a"

definition read_rule :: "emitted_rule \<Rightarrow> rule_def option" where
  "read_rule r = map_option (\<lambda>a. \<lparr>rd_id = er_id r, rd_phase = PhRequest, rd_action = a,
       rd_status = unwrap_or (er_status r) default_rule_status, rd_msg = er_msg r, rd_rps = 0, rd_burst = 0,
       rd_ttl_secs = default_rl_ttl, rd_score = er_score r, rd_counter = [], rd_incr = default_incr,
       rd_when = map read_cond (er_when r)\<rparr>) (read_action (er_action r))"

text \<open>What of an emitted rule the compiler may still refuse: an operand ModSecurity reads differently, an empty
  selector, an operator without its library, a status or a score that is none.\<close>

definition import_fault :: "rule_msg \<Rightarrow> bool" where
  "import_fault e = (case e of
     BadRegex _ \<Rightarrow> True | CidrNeedsIp \<Rightarrow> True | BadCidr _ \<Rightarrow> True | NotNumeric _ _ \<Rightarrow> True
   | FieldNeedsName _ \<Rightarrow> True | NeedsLibinjection _ \<Rightarrow> True | BadStatus _ \<Rightarrow> True | ScoreNeedsScore \<Rightarrow> True
   | _ \<Rightarrow> False)"

definition known_transforms :: "string list" where
  "known_transforms = [''lowercase'', ''uppercase'', ''url_decode'', ''compress_ws'', ''remove_nulls'', ''trim'']"

definition known_fields :: "string list" where
  "known_fields = [''args_count'', ''arg'', ''args'', ''arg_names'', ''query'', ''uri'', ''path'', ''method'', ''body'',
     ''header'', ''headers'', ''header_names'', ''cookie'', ''cookies'', ''cookie_names'', ''ip'']"

definition known_ops :: "string list" where
  "known_ops = [''regex'', ''contains'', ''starts_with'', ''ends_with'', ''eq'', ''gt'', ''lt'', ''ge'', ''le'',
     ''detect_sqli'', ''detect_xss'', ''cidr'']"

definition cond_ok :: "emitted_cond \<Rightarrow> bool" where
  "cond_ok c \<longleftrightarrow> em_field c \<in> set known_fields \<and> em_op c \<in> set known_ops \<and>
     set (em_transform c) \<subseteq> set known_transforms"

definition rule_ok :: "emitted_rule \<Rightarrow> bool" where
  "rule_ok r \<longleftrightarrow> er_when r \<noteq> [] \<and> list_all cond_ok (er_when r) \<and> er_phase r = None \<and>
     er_action r \<in> {''block'', ''allow'', ''log'', ''score''}"

lemma map_var_known: "map_var v = Some (f, n) \<Longrightarrow> f \<in> set known_fields"
  by (auto simp: map_var_def known_fields_def Let_def split: if_splits option.splits)

lemma map_operator_known: "map_operator n a ws = (Inr (op, v), ws') \<Longrightarrow> op \<in> set known_ops"
proof -
  have "set (map snd operand_ops) \<subseteq> set known_ops"
    by (simp add: operand_ops_def known_ops_def)
  then have "map_of operand_ops n = Some x \<Longrightarrow> x \<in> set known_ops" for x
    by (force dest: map_of_SomeD)
  moreover have "''detect_sqli'' \<in> set known_ops" "''detect_xss'' \<in> set known_ops" "''cidr'' \<in> set known_ops"
    "''regex'' \<in> set known_ops"
    by (simp_all add: known_ops_def)
  ultimately show "map_operator n a ws = (Inr (op, v), ws') \<Longrightarrow> op \<in> set known_ops"
    by (auto simp: map_operator_def Let_def split: if_splits sum.splits prod.splits list.splits option.splits)
qed

definition transforms_ok :: "parsed_rule \<Rightarrow> bool" where
  "transforms_ok r \<longleftrightarrow> list_all (\<lambda>t. t \<in> set known_transforms) (pr_transforms r)"

lemma map_transform_known: "map_transform t = Keep n \<Longrightarrow> n \<in> set known_transforms"
  by (auto simp: map_transform_def known_transforms_def Let_def split: if_splits)

lemma apply_action_transforms: "transforms_ok r \<Longrightarrow> transforms_ok (apply_action kv r)"
  using map_transform_known
  by (simp add: apply_action_def transforms_ok_def split: prod.split option.split transform_map.split)

lemma parse_secrule_transforms:
  assumes "parse_secrule rest = Inr r"
  shows "transforms_ok r"
proof -
  have "transforms_ok (fold apply_action acts r0)" if "transforms_ok r0" for acts r0
    using that by (induction acts arbitrary: r0) (simp_all add: apply_action_transforms)
  moreover obtain acts r0 where "r = fold apply_action acts r0" "pr_transforms r0 = []"
    using assms by (auto simp: parse_secrule_def split: list.splits prod.splits)
  ultimately show ?thesis by (simp add: transforms_ok_def)
qed

lemma member_conditions_ok:
  assumes "transforms_ok m" "map_member_conditions m ws = (Inr cs, ws')"
  shows "cs \<noteq> [] \<and> list_all cond_ok cs"
proof -
  obtain op v w where m: "map_operator (pr_op_name m) (pr_op_arg m) ws = (Inr (op, v), w)"
    using assms(2) by (auto simp: map_member_conditions_def split: prod.splits sum.splits)
  have "set (pr_transforms m) \<subseteq> set known_transforms"
    using assms(1) by (auto simp: transforms_ok_def list_all_iff)
  then have "cond_ok \<lparr>em_field = f, em_name = n, em_op = op, em_value = v, em_negate = pr_negate m,
      em_transform = pr_transforms m\<rparr>" if "map_var x = Some (f, n)" for x f n
    using map_operator_known [OF m] map_var_known [OF that] by (simp add: cond_ok_def)
  with assms(2) m show ?thesis
    by (fastforce simp: map_member_conditions_def Let_def list_all_iff set_map_filter_iff split: if_splits)
qed

lemma map_members_ok:
  "list_all transforms_ok ms \<Longrightarrow> map_members ms ws = (Inr css, ws') \<Longrightarrow>
     length css = length ms \<and> list_all (\<lambda>cs. cs \<noteq> [] \<and> list_all cond_ok cs) css"
  by (induction ms arbitrary: ws css ws')
     (auto split: prod.splits sum.splits dest: member_conditions_ok)

lemma all_single_ok:
  "all_single css = Some cs \<Longrightarrow> list_all (\<lambda>cs. list_all cond_ok cs) css \<Longrightarrow>
     length cs = length css \<and> list_all cond_ok cs"
  by (induction css arbitrary: cs rule: all_single.induct) (auto split: list.splits)

lemma build_rules_ok:
  assumes "list_all transforms_ok ms" "ms \<noteq> []" "build_rules ms ws = (Inr rs, ws')"
  shows "list_all rule_ok rs"
proof -
  obtain css w where mm: "map_members ms ws = (Inr css, w)"
    using assms(3) by (auto simp: build_rules_def Let_def split: if_splits prod.splits sum.splits)
  from map_members_ok [OF assms(1) mm]
  have css: "length css = length ms" "list_all (\<lambda>cs. cs \<noteq> [] \<and> list_all cond_ok cs) css" by simp_all
  obtain act st sc where a: "starter_action (hd ms) = (act, st, sc)"
    by (cases "starter_action (hd ms)") blast
  then have act: "act \<in> {''block'', ''allow'', ''log'', ''score''}"
    by (auto simp: starter_action_def split: if_splits option.splits)
  show ?thesis
  proof (cases "length ms = 1")
    case True
    then obtain cs where "css = [cs]" using css(1) by (cases css) auto
    with True assms(3) mm a css(2) act show ?thesis
      by (auto simp: build_rules_def Let_def rule_ok_def list_all_iff in_set_enumerate_eq split: if_splits)
  next
    case False
    with assms(3) mm a obtain conds where c: "all_single css = Some conds"
      and rs: "\<exists>i. rs = [\<lparr>er_id = i, er_phase = None, er_action = act, er_status = st, er_msg = pr_msg (hd ms),
        er_score = sc, er_when = conds\<rparr>]"
      by (auto simp: build_rules_def Let_def split: if_splits option.splits)
    have "length conds = length css \<and> list_all cond_ok conds"
      using all_single_ok [OF c] css(2) by (simp add: list_all_iff)
    with rs css(1) assms(2) act show ?thesis by (auto simp: rule_ok_def)
  qed
qed

lemma chain_members_ok: "list_all transforms_ok (fst (chain_members chained ls))"
  by (induction chained ls rule: chain_members.induct)
     (auto simp: parse_secrule_transforms split: option.splits sum.splits prod.splits)

lemma convert_loop_ok: "list_all rule_ok (ca_rules acc) \<Longrightarrow> list_all rule_ok (ca_rules (convert_loop ls acc))"
proof (induction ls acc rule: convert_loop.induct)
  case (2 l ls acc)
  show ?case
  proof (cases "blank_or_comment l")
    case False
    show ?thesis
    proof (cases "directive_arg (trim l) ''SecRule''")
      case (Some rest)
      show ?thesis
      proof (cases "parse_secrule rest")
        case (Inr starter)
        let ?ms = "starter # fst (chain_members (pr_chain starter) ls)"
        obtain r ws where b: "build_rules ?ms (ca_warnings acc) = (r, ws)" by (cases "build_rules ?ms (ca_warnings acc)") blast
        have "list_all transforms_ok ?ms"
          using parse_secrule_transforms [OF Inr] chain_members_ok by simp
        then show ?thesis
          using 2 False Some Inr b build_rules_ok [of ?ms "ca_warnings acc" _ ws]
          by (cases r) (simp_all add: Let_def)
      qed (use 2 False Some in simp)
    qed (use 2 False in simp)
  qed (use 2 in simp)
qed simp

lemma convert_ok: "list_all rule_ok (ca_rules (convert_run input))"
  by (simp add: convert_run_def convert_loop_ok)

lemma known_field_compiles:
  assumes "em_field c \<in> set known_fields"
  shows "case compile_field (read_cond c) of
      Inl e \<Rightarrow> import_fault e
    | Inr f \<Rightarrow> \<not> resp_field f \<and> f \<noteq> FTime \<and> f \<noteq> FDay"
  using assms unfolding known_fields_def
  by (auto simp: compile_field_def named_field_def read_cond_def plain_fields_def resp_field_def import_fault_def)

lemma import_faults:
  "import_fault (BadRegex x)" "import_fault CidrNeedsIp" "import_fault (BadCidr y)"
  "import_fault (NotNumeric y z)" "import_fault (NeedsLibinjection y)"
  by (simp_all add: import_fault_def)

lemma num_op_fault: "num_op c mk = Inl e \<Longrightarrow> import_fault e"
  by (auto simp: num_op_def import_fault_def split: option.splits)

lemma known_op_compiles:
  assumes "em_op c \<in> set known_ops"
  shows "compile_op D R (read_cond c) f tz = Inl e \<Longrightarrow> import_fault e"
proof -
  have op: "cd_op (read_cond c) = em_op c" by (simp add: read_cond_def)
  from assms consider "em_op c = ''regex''" | "em_op c = ''contains''" | "em_op c = ''starts_with''"
    | "em_op c = ''ends_with''" | "em_op c = ''eq''" | "em_op c = ''gt''" | "em_op c = ''lt''"
    | "em_op c = ''ge''" | "em_op c = ''le''" | "em_op c = ''detect_sqli''" | "em_op c = ''detect_xss''"
    | "em_op c = ''cidr''"
    unfolding known_ops_def list.set insert_iff empty_iff by argo
  then show "compile_op D R (read_cond c) f tz = Inl e \<Longrightarrow> import_fault e"
    by cases (auto simp: compile_op_def op import_faults Let_def dest: num_op_fault split: sum.splits option.splits if_splits)
qed

lemma collect_results_Inr_iff:
  "(\<exists>ys. collect_results f xs = Inr ys) \<longleftrightarrow> list_all (\<lambda>x. \<exists>y. f x = Inr y) xs"
  by (induction xs) (auto split: sum.splits)

lemma collect_results_Inl: "collect_results f xs = Inl e \<Longrightarrow> \<exists>x\<in>set xs. f x = Inl e"
  by (induction xs) (auto split: sum.splits)

lemma collect_results_sources:
  assumes "collect_results f xs = Inr ys"
  shows "length ys = length xs \<and> (\<forall>y\<in>set ys. \<exists>x\<in>set xs. f x = Inr y)"
  using collect_results_Inr [OF assms] by (fastforce simp: list_all2_conv_all_nth in_set_conv_nth [of _ ys] intro: nth_mem)

lemma transforms_compile:
  assumes "set (em_transform c) \<subseteq> set known_transforms"
  obtains ts where "collect_results compile_transform (cd_transform (read_cond c)) = Inr ts"
proof -
  have "t \<in> set known_transforms \<Longrightarrow> \<exists>y. compile_transform t = Inr y" for t
    by (auto simp: known_transforms_def compile_transform_def)
  then have "list_all (\<lambda>t. \<exists>y. compile_transform t = Inr y) (cd_transform (read_cond c))"
    using assms by (auto simp: list_all_iff read_cond_def)
  then show ?thesis using that unfolding collect_results_Inr_iff [symmetric] by blast
qed

lemma cond_fault:
  assumes "cond_ok c" "compile_cond D R tz (read_cond c) = Inl e"
  shows "import_fault e"
proof -
  obtain ts where "collect_results compile_transform (cd_transform (read_cond c)) = Inr ts"
    using assms(1) transforms_compile by (auto simp: cond_ok_def)
  moreover have k: "em_op c \<in> set known_ops" using assms(1) by (simp add: cond_ok_def)
  ultimately show ?thesis
    using assms(2) known_field_compiles [of c] assms(1) known_op_compiles [OF k, of D R _ tz e]
    by (auto simp: compile_cond_def cond_ok_def split: sum.splits if_splits)
qed

lemma cond_field:
  assumes "cond_ok c" "compile_cond D R tz (read_cond c) = Inr x"
  shows "\<not> resp_field (cc_field x)"
  using assms known_field_compiles [of c]
  by (auto simp: compile_cond_def cond_ok_def split: sum.splits if_splits)

lemma phase_check_request: "list_all (\<lambda>x. \<not> resp_field (cc_field x)) cs \<Longrightarrow> phase_check PhRequest cs = None"
  by (induction cs) simp_all

lemma rule_compiles:
  assumes "rule_ok r"
  shows "\<exists>d. read_rule r = Some d \<and>
    (case compile_rule D R tz d of Inl e \<Rightarrow> import_fault e | Inr x \<Rightarrow> r_id x = er_id r)"
proof -
  have act: "er_action r \<in> {''block'', ''allow'', ''log'', ''score''}" using assms by (simp add: rule_ok_def)
  then obtain d where d: "read_rule r = Some d" and a: "rd_action d \<in> {AkBlock, AkAllow, AkLog, AkScore}"
    by (auto simp: read_rule_def read_action_def)
  then have w: "rd_when d = map read_cond (er_when r)" "rd_id d = er_id r" "rd_phase d = PhRequest"
    by (auto simp: read_rule_def)
  have ok: "cond_ok c" if "c \<in> set (er_when r)" for c
    using that assms by (simp add: rule_ok_def list_all_iff)
  have fault: "import_fault e" if "collect_results (compile_cond D R tz) (rd_when d) = Inl e" for e
    using collect_results_Inl [OF that] ok cond_fault [of _ D R tz e] unfolding w(1) by auto
  have fields: "phase_check PhRequest cs = None \<and> cs \<noteq> []"
    if "collect_results (compile_cond D R tz) (rd_when d) = Inr cs" for cs
  proof -
    have "list_all (\<lambda>x. \<not> resp_field (cc_field x)) cs"
      using collect_results_sources [OF that] ok cond_field [of _ D R tz] unfolding w(1) list_all_iff by fastforce
    moreover have "length cs = length (er_when r)" using collect_results_sources [OF that] w(1) by simp
    ultimately show ?thesis using assms phase_check_request [of cs] by (auto simp: rule_ok_def)
  qed
  have "import_fault e" if "compile_action D d = Inl e" for e
    using a that by (auto simp: compile_action_def import_fault_def split: if_splits)
  then show ?thesis
    using d w(2,3) a fault fields by (auto simp: compile_rule_def split: sum.splits option.splits)
qed

text \<open>C21: the importer speaks the compiler's language. Whatever text is imported, every rule it emits can be
  read as a rule of the rule file, of the request phase and with at least one condition, and the rule
  compiler either accepts it under its id or refuses it for one of the named operand faults; it never
  meets a field, an operation, a transform or an action it does not know.\<close>

theorem imported_rules_compile:
  assumes "r \<in> set (ca_rules (convert_run input))"
  shows "er_phase r = None \<and> er_when r \<noteq> [] \<and>
    (\<exists>d. read_rule r = Some d \<and>
      (case compile_rule D R tz d of Inl e \<Rightarrow> import_fault e | Inr x \<Rightarrow> r_id x = er_id r))"
proof -
  have "rule_ok r" using assms convert_ok [of input] by (simp add: list_all_iff)
  then show ?thesis using rule_compiles by (simp add: rule_ok_def)
qed

definition sample_secrule :: string where
  "sample_secrule = ''SecRule ARGS '' @ [CHR 0x22] @ ''@contains evil'' @ [CHR 0x22, CHR 0x20, CHR 0x22] @
     ''id:942,deny,t:lowercase'' @ [CHR 0x22]"

definition sample_imported :: emitted_rule where
  "sample_imported = \<lparr>er_id = ''crs-942'', er_phase = None, er_action = ''block'', er_status = Some 403,
     er_msg = [], er_score = 0,
     er_when = [\<lparr>em_field = ''args'', em_name = None, em_op = ''contains'', em_value = Some ''evil'',
       em_negate = False, em_transform = [''lowercase'']\<rparr>]\<rparr>"

definition no_libs :: "unit rule_deps" where
  "no_libs = \<lparr>re_new = (\<lambda>_. Inl ''unavailable''), re_is_match = (\<lambda>_ _. False), libinjection = False,
     inj_sqli = (\<lambda>_. False), inj_xss = (\<lambda>_. False), from_json = (\<lambda>_. None)\<rparr>"

lemma sample_imported_id: "er_id sample_imported = ''crs-942''"
  by (simp add: sample_imported_def)

theorem imported_rules_compile_witness:
  "ca_rules (convert_run sample_secrule) = [sample_imported] \<and>
   (\<exists>d. read_rule sample_imported = Some d \<and>
      (case compile_rule inst no_libs 0 d of Inl e \<Rightarrow> import_fault e | Inr x \<Rightarrow> r_id x = ''crs-942''))"
proof
  show r: "ca_rules (convert_run sample_secrule) = [sample_imported]" by code_simp
  then have m: "sample_imported \<in> set (ca_rules (convert_run sample_secrule))"
    by (metis list.set_intros(1))
  show "\<exists>d. read_rule sample_imported = Some d \<and>
      (case compile_rule inst no_libs 0 d of Inl e \<Rightarrow> import_fault e | Inr x \<Rightarrow> r_id x = ''crs-942'')"
    using imported_rules_compile [OF m, of inst no_libs 0]
    unfolding sample_imported_id by simp
qed

end
