(* ===== verification/Supervisor.thy ===== *)
theory Supervisor
  imports Ban Modsec
begin

text \<open>
  The process of \<open>crates/budu/src/main.rs\<close> with the accept loops of \<open>crates/budu-proxy/src/lib.rs\<close>
  (\<open>run\<close>) and \<open>admin.rs\<close> (\<open>serve_admin\<close>): start-up, the \<open>check\<close> and \<open>import-crs\<close> commands, the
  supervisor's select loop, and shutdown. Tasks are phases of one process record; a step relation with
  one rule per branch of a \<open>select!\<close> or completion of an \<open>await\<close> gives every interleaving. Requests act
  on the shared state by the pipeline's evaluations. Shown: what every schedule keeps, and that a
  cancelled process ends.
\<close>

section \<open>Commands\<close>

datatype start_error =
    SeConfig config_error
  | SeAudit string string
  | SePipeline pipe_error
  | SePidfile ban_error

definition pipeline_len ::
  "('h, 'n, 'b, 'c, 'a, 'r, 're, 'g) waf_env \<Rightarrow> 'g pipeline \<Rightarrow> nat" where
  "pipeline_len E p = length (early_stages E 0 p) + length (late_stages E 0)"

record check_summary =
  ck_listen :: socket_addr
  ck_upstream :: uri
  ck_stages :: nat
  ck_rules :: nat
  ck_signatures :: nat
  ck_blocklist :: nat
  ck_allowlist :: nat

definition check_cmd ::
  "('h, 'n, 'b, 'c, 'a, 'r, 're, 'g) waf_env \<Rightarrow> (string \<Rightarrow> string + 'n config) \<Rightarrow> string \<Rightarrow> u64 \<Rightarrow>
     start_error + check_summary" where
  "check_cmd E from_str path now =
     (case config_load (e_read E) from_str path of
        Inl e \<Rightarrow> Inl (SeConfig e)
      | Inr cfg \<Rightarrow>
     (case pipeline_from_config E now cfg of
        Inl e \<Rightarrow> Inl (SePipeline e)
      | Inr (p, w) \<Rightarrow>
          (let m = pipeline_metrics_of E w in
           Inr \<lparr>ck_listen = listen (server cfg), ck_upstream = upstream (server cfg),
             ck_stages = pipeline_len E p, ck_rules = pm_rules m, ck_signatures = pm_signatures m,
             ck_blocklist = pm_blocklist m, ck_allowlist = pm_allowlist m\<rparr>)))"

datatype import_error = SourceUnreadable string string | OutputFailed string string

definition import_header :: "nat \<Rightarrow> nat \<Rightarrow> nat \<Rightarrow> string" where
  "import_header files converted skipped =
     unlines [''# Generated by `budu import-crs` from '' @ show_nat files @ '' file(s).'',
       ''# Converted '' @ show_nat converted @ '' source rule(s); skipped '' @ show_nat skipped @
         ''. REVIEW before deploying,'',
       ''# then validate with `budu --config <cfg> check`.'', []]"

text \<open>The text goes to a file or to standard output, which is the second component of the result.\<close>

definition import_crs ::
  "os_env \<Rightarrow> (emitted_rule list \<Rightarrow> string option) \<Rightarrow> string list \<Rightarrow> string option \<Rightarrow> ban_world \<Rightarrow>
     (import_error + string) \<times> ban_world" where
  "import_crs os to_toml files out W =
     (case collect_results (\<lambda>f. case read_to_string W f of
          Inl e \<Rightarrow> Inl (SourceUnreadable f e) | Inr t \<Rightarrow> Inr t) files of
        Inl e \<Rightarrow> (Inl e, W)
      | Inr texts \<Rightarrow>
          (let report = convert to_toml (unlines texts);
               content = import_header (length files) (cr_converted report) (length (cr_skipped report)) @
                 cr_toml report
           in case out of
                None \<Rightarrow> (Inr content, W)
              | Some path \<Rightarrow>
                  (case os_create os path of
                     Some e \<Rightarrow> (Inl (OutputFailed path e), W)
                   | None \<Rightarrow>
                       (case os_write os path content of
                          Some (e, part) \<Rightarrow>
                            (Inl (OutputFailed path e), W\<lparr>bw_files := (bw_files W)(path \<mapsto> part)\<rparr>)
                        | None \<Rightarrow> (Inr [], W\<lparr>bw_files := (bw_files W)(path \<mapsto> content)\<rparr>)))))"

section \<open>Logging\<close>

text \<open>Where the log goes: everything to standard output, or the audit target to a file of its own.\<close>

datatype log_sink = StdoutOnly | SplitAudit string

definition init_tracing ::
  "os_env \<Rightarrow> 'n config \<Rightarrow> ban_world \<Rightarrow> (start_error + log_sink) \<times> ban_world" where
  "init_tracing os cfg W =
     (let path = trim (audit_file (log_cfg cfg)) in
      if path = [] then (Inr StdoutOnly, W)
      else case os_create os path of
        Some e \<Rightarrow> (Inl (SeAudit path e), W)
      | None \<Rightarrow>
          (Inr (SplitAudit path), W\<lparr>bw_files := (bw_files W)(path \<mapsto> unwrap_or (bw_files W path) [])\<rparr>))"

text \<open>Which layer takes an event of a target, given whether the \<open>BUDU_LOG\<close> filter passes it; a span goes
  to the file whatever its target.\<close>

definition to_stdout :: "log_sink \<Rightarrow> bool \<Rightarrow> string \<Rightarrow> bool" where
  "to_stdout sink passes target =
     (case sink of StdoutOnly \<Rightarrow> passes | SplitAudit _ \<Rightarrow> passes \<and> target \<noteq> ''audit'')"

definition to_audit_file :: "log_sink \<Rightarrow> bool \<Rightarrow> string \<Rightarrow> bool" where
  "to_audit_file sink is_span target =
     (case sink of StdoutOnly \<Rightarrow> False | SplitAudit _ \<Rightarrow> is_span \<or> target = ''audit'')"

section \<open>The process\<close>

text \<open>A listening task binds its socket, serves and returns. The supervisor fetches the remote lists once,
  then selects; a reload and a refresh end with a fetch they await.\<close>

datatype serve_task = Binding | Serving | Returned

datatype 'n supervisor =
    Fetching
  | Selecting
  | Reloading "'n config"
  | Refreshing "'n config"
  | Stopped

record ('n, 'b, 'c, 'a, 'r, 're, 'g) process =
  pc_pipeline :: "'g pipeline"
  pc_waf :: "('n, 'b, 'c, 'a, 'r, 're) waf_state"
  pc_config :: "'n config"
  pc_cancelled :: bool
  pc_server :: serve_task
  pc_admin :: "serve_task option"
  pc_supervisor :: "'n supervisor"
  pc_timer :: "u64 option"
  pc_pidfile :: "string option"
  pc_exited :: bool

text \<open>\<open>run\<close> up to the moment all tasks are spawned.\<close>

definition refresh_timer :: "'n config \<Rightarrow> u64 option" where
  "refresh_timer cfg =
     (if 0 < refresh_secs (reputation cfg) then Some (refresh_secs (reputation cfg)) else None)"

definition spawn_tasks ::
  "'g pipeline \<Rightarrow> ('n, 'b, 'c, 'a, 'r, 're) waf_state \<Rightarrow> 'n config \<Rightarrow> string option \<Rightarrow>
     ('n, 'b, 'c, 'a, 'r, 're, 'g) process" where
  "spawn_tasks p w cfg pid =
     \<lparr>pc_pipeline = p, pc_waf = w, pc_config = cfg, pc_cancelled = False, pc_server = Binding,
      pc_admin = map_option (\<lambda>_. Binding) (metrics_listen (metrics_cfg cfg)), pc_supervisor = Fetching,
      pc_timer = refresh_timer cfg, pc_pidfile = pid, pc_exited = False\<rparr>"

definition run_start ::
  "os_env \<Rightarrow> ('h, 'n, 'b, 'c, 'a, 'r, 're, 'g) waf_env \<Rightarrow> (string \<Rightarrow> string + 'n config) \<Rightarrow> string \<Rightarrow> u64 \<Rightarrow>
     ban_world \<Rightarrow> (start_error + ('n, 'b, 'c, 'a, 'r, 're, 'g) process) \<times> ban_world" where
  "run_start os E from_str path now W =
     (case config_load (e_read E) from_str path of
        Inl e \<Rightarrow> (Inl (SeConfig e), W)
      | Inr cfg \<Rightarrow>
     (case init_tracing os cfg W of
        (Inl e, W1) \<Rightarrow> (Inl e, W1)
      | (Inr _, W1) \<Rightarrow>
     (case pipeline_from_config E now cfg of
        Inl e \<Rightarrow> (Inl (SePipeline e), W1)
      | Inr (p, w) \<Rightarrow>
          if f_fail2ban E then
            (case pidfile_write os (pidfile (server cfg)) W1 of
               (Inl e, W2) \<Rightarrow> (Inl (SePidfile e), W2)
             | (Inr pid, W2) \<Rightarrow> (Inr (spawn_tasks p w cfg pid), W2))
          else (Inr (spawn_tasks p w cfg None), W1))))"

definition run_finish :: "('n, 'b, 'c, 'a, 'r, 're, 'g) process \<Rightarrow> ban_world \<Rightarrow> ban_world" where
  "run_finish s W = pidfile_drop (pc_pidfile s) W"

section \<open>Steps\<close>

datatype event =
    Bound | BindFailed | Accepted | ServerReturned
  | AdminBound | AdminBindFailed | AdminReturned
  | Fetched | Hangup | ReloadDone | RefreshTick | RefreshDone | Maintenance | Shutdown | SignalLost
  | SupervisorCancelled
  | RequestEarly | RequestLate | ResponseSeen
  | Exited

text \<open>The synchronous part of a SIGHUP: load the file and apply it. A failed apply is logged only; what
  follows is the refresh, at whose end the configuration is stored.\<close>

definition on_hangup ::
  "('h, 'n, 'b, 'c, 'a, 'r, 're, 'g) waf_env \<Rightarrow> (string \<Rightarrow> string + 'n config) \<Rightarrow> string \<Rightarrow> u64 \<Rightarrow>
     ('n, 'b, 'c, 'a, 'r, 're, 'g) process \<Rightarrow> ('n, 'b, 'c, 'a, 'r, 're, 'g) process" where
  "on_hangup E from_str path now s =
     (case config_load (e_read E) from_str path of
        Inl e \<Rightarrow> s
      | Inr cfg \<Rightarrow> s\<lparr>pc_waf := snd (reload_apply E now cfg (pc_waf s)), pc_supervisor := Reloading cfg\<rparr>)"

definition on_fetched ::
  "('h, 'n, 'b, 'c, 'a, 'r, 're, 'g) waf_env \<Rightarrow> u64 \<Rightarrow> 'n config \<Rightarrow>
     ('n, 'b, 'c, 'a, 'r, 're, 'g) process \<Rightarrow> ('n, 'b, 'c, 'a, 'r, 're, 'g) process" where
  "on_fetched E now cfg s =
     s\<lparr>pc_waf := snd (refresh_blocklist E now cfg (pc_waf s)), pc_supervisor := Selecting\<rparr>"

definition on_maintenance ::
  "('h, 'n, 'b, 'c, 'a, 'r, 're, 'g) waf_env \<Rightarrow> u64 \<Rightarrow>
     ('n, 'b, 'c, 'a, 'r, 're, 'g) process \<Rightarrow> ('n, 'b, 'c, 'a, 'r, 're, 'g) process" where
  "on_maintenance E now s = s\<lparr>pc_waf := run_maintenance E now (pc_waf s)\<rparr>"

text \<open>A task that may end: what the join of the main task waits for.\<close>

definition all_joined :: "('n, 'b, 'c, 'a, 'r, 're, 'g) process \<Rightarrow> bool" where
  "all_joined s \<longleftrightarrow> pc_server s = Returned \<and> pc_supervisor s = Stopped \<and> pc_admin s \<in> {None, Some Returned}"

text \<open>One step of a live process. The files, feeds and the clock may differ at every step, so each step
  has its own environment of the same build. An accept loop polls the cancellation first. A termination
  signal is seen only while the supervisor selects: its stream is created anew in every round, so one
  that arrives during a reload or a refresh is not seen afterwards.\<close>

inductive proc_step ::
  "('h, 'n, 'b, 'c, 'a, 'r, 're, 'g) waf_env \<Rightarrow> (string \<Rightarrow> string + 'n config) \<Rightarrow> string \<Rightarrow>
     ('n, 'b, 'c, 'a, 'r, 're, 'g) process \<Rightarrow> event \<Rightarrow> ('n, 'b, 'c, 'a, 'r, 're, 'g) process \<Rightarrow> bool"
  for E from_str path where
  server_bound: "\<not> pc_exited s \<Longrightarrow> pc_server s = Binding \<Longrightarrow>
     proc_step E from_str path s Bound (s\<lparr>pc_server := Serving\<rparr>)"
| server_bind_failed: "\<not> pc_exited s \<Longrightarrow> pc_server s = Binding \<Longrightarrow>
     proc_step E from_str path s BindFailed (s\<lparr>pc_server := Returned, pc_cancelled := True\<rparr>)"
| server_accepts: "\<not> pc_exited s \<Longrightarrow> pc_server s = Serving \<Longrightarrow> \<not> pc_cancelled s \<Longrightarrow>
     proc_step E from_str path s Accepted s"
| server_returns: "\<not> pc_exited s \<Longrightarrow> pc_server s = Serving \<Longrightarrow> pc_cancelled s \<Longrightarrow>
     proc_step E from_str path s ServerReturned (s\<lparr>pc_server := Returned\<rparr>)"
| admin_bound: "\<not> pc_exited s \<Longrightarrow> pc_admin s = Some Binding \<Longrightarrow>
     proc_step E from_str path s AdminBound (s\<lparr>pc_admin := Some Serving\<rparr>)"
| admin_bind_failed: "\<not> pc_exited s \<Longrightarrow> pc_admin s = Some Binding \<Longrightarrow>
     proc_step E from_str path s AdminBindFailed (s\<lparr>pc_admin := Some Returned\<rparr>)"
| admin_returns: "\<not> pc_exited s \<Longrightarrow> pc_admin s = Some Serving \<Longrightarrow> pc_cancelled s \<Longrightarrow>
     proc_step E from_str path s AdminReturned (s\<lparr>pc_admin := Some Returned\<rparr>)"
| first_fetch: "\<not> pc_exited s \<Longrightarrow> pc_supervisor s = Fetching \<Longrightarrow> same_build E E' \<Longrightarrow>
     proc_step E from_str path s Fetched (on_fetched E' now (pc_config s) s)"
| hangup: "\<not> pc_exited s \<Longrightarrow> pc_supervisor s = Selecting \<Longrightarrow> same_build E E' \<Longrightarrow>
     proc_step E from_str path s Hangup (on_hangup E' from_str path now s)"
| reload_done: "\<not> pc_exited s \<Longrightarrow> pc_supervisor s = Reloading cfg \<Longrightarrow> same_build E E' \<Longrightarrow>
     proc_step E from_str path s ReloadDone (on_fetched E' now cfg s\<lparr>pc_config := cfg\<rparr>)"
| refresh_tick: "\<not> pc_exited s \<Longrightarrow> pc_supervisor s = Selecting \<Longrightarrow> pc_timer s = Some secs \<Longrightarrow>
     proc_step E from_str path s RefreshTick (s\<lparr>pc_supervisor := Refreshing (pc_config s)\<rparr>)"
| refresh_done: "\<not> pc_exited s \<Longrightarrow> pc_supervisor s = Refreshing cfg \<Longrightarrow> same_build E E' \<Longrightarrow>
     proc_step E from_str path s RefreshDone (on_fetched E' now cfg s)"
| maintenance: "\<not> pc_exited s \<Longrightarrow> pc_supervisor s = Selecting \<Longrightarrow>
     proc_step E from_str path s Maintenance (on_maintenance E now s)"
| shutdown: "\<not> pc_exited s \<Longrightarrow> pc_supervisor s = Selecting \<Longrightarrow>
     proc_step E from_str path s Shutdown (s\<lparr>pc_supervisor := Stopped, pc_cancelled := True\<rparr>)"
| signal_lost: "\<not> pc_exited s \<Longrightarrow> pc_supervisor s \<in> {Reloading cfg, Refreshing cfg} \<Longrightarrow>
     proc_step E from_str path s SignalLost s"
| supervisor_cancelled: "\<not> pc_exited s \<Longrightarrow> pc_supervisor s = Selecting \<Longrightarrow> pc_cancelled s \<Longrightarrow>
     proc_step E from_str path s SupervisorCancelled (s\<lparr>pc_supervisor := Stopped\<rparr>)"
| request_early: "\<not> pc_exited s \<Longrightarrow> pc_server s \<noteq> Binding \<Longrightarrow>
     evaluate_early E now (pc_pipeline s) ctx (pc_waf s) = (d, c, w) \<Longrightarrow>
     proc_step E from_str path s RequestEarly (s\<lparr>pc_waf := w\<rparr>)"
| request_late: "\<not> pc_exited s \<Longrightarrow> pc_server s \<noteq> Binding \<Longrightarrow>
     evaluate_late E now (pc_pipeline s) ctx (pc_waf s) = (d, c, w) \<Longrightarrow>
     proc_step E from_str path s RequestLate (s\<lparr>pc_waf := w\<rparr>)"
| response_seen: "\<not> pc_exited s \<Longrightarrow> pc_server s \<noteq> Binding \<Longrightarrow>
     pipeline_evaluate_response E now rctx (pc_waf s) = (d', w) \<Longrightarrow>
     proc_step E from_str path s ResponseSeen (s\<lparr>pc_waf := w\<rparr>)"
| exits: "\<not> pc_exited s \<Longrightarrow> all_joined s \<Longrightarrow>
     proc_step E from_str path s Exited (s\<lparr>pc_exited := True\<rparr>)"

inductive proc_run ::
  "('h, 'n, 'b, 'c, 'a, 'r, 're, 'g) waf_env \<Rightarrow> (string \<Rightarrow> string + 'n config) \<Rightarrow> string \<Rightarrow>
     ('n, 'b, 'c, 'a, 'r, 're, 'g) process \<Rightarrow> event list \<Rightarrow> ('n, 'b, 'c, 'a, 'r, 're, 'g) process \<Rightarrow> bool"
  for E from_str path where
  run_nil: "proc_run E from_str path s [] s"
| run_cons: "proc_step E from_str path s e t \<Longrightarrow> proc_run E from_str path t es u \<Longrightarrow>
     proc_run E from_str path s (e # es) u"

inductive_simps proc_run_Nil [simp]: "proc_run E from_str path s [] t"
inductive_simps proc_run_Cons: "proc_run E from_str path s (e # es) t"

section \<open>What every schedule keeps\<close>

text \<open>Every change of the shared state is a step of the filter.\<close>

lemma reload_waf_step: "same_build E E' \<Longrightarrow> waf_step E w (snd (reload_apply E' now cfg w))"
  by (rule step_reload [OF _ prod.collapse [symmetric]])

lemma refresh_waf_step: "same_build E E' \<Longrightarrow> waf_step E w (snd (refresh_blocklist E' now cfg w))"
  by (rule step_refresh [OF _ prod.collapse [symmetric]])

lemma proc_step_waf:
  "proc_step E from_str path s e t \<Longrightarrow> waf_reachable E (pc_waf s) \<Longrightarrow> waf_reachable E (pc_waf t)"
proof (induction rule: proc_step.induct)
  case (hangup s E' now)
  then show ?case
    using reach_step reload_waf_step [of E E' "pc_waf s" now] by (simp add: on_hangup_def split: sum.split) blast
next
  case (first_fetch s E' now)
  then show ?case
    using reach_step refresh_waf_step [of E E' "pc_waf s" now "pc_config s"] by (simp add: on_fetched_def) blast
next
  case (reload_done s cfg E' now)
  then show ?case
    using reach_step refresh_waf_step [of E E' "pc_waf s" now cfg] by (simp add: on_fetched_def) blast
next
  case (refresh_done s cfg E' now)
  then show ?case
    using reach_step refresh_waf_step [of E E' "pc_waf s" now cfg] by (simp add: on_fetched_def) blast
next
  case (maintenance s now)
  then show ?case
    using reach_step step_maintenance [of E "pc_waf s" now] by (simp add: on_maintenance_def) blast
next
  case (request_early s now ctx d c w)
  then show ?case using reach_step [OF _ step_early [OF request_early(3)]] by simp
next
  case (request_late s now ctx d c w)
  then show ?case using reach_step [OF _ step_late [OF request_late(3)]] by simp
next
  case (response_seen s now rctx d' w)
  then show ?case using reach_step [OF _ step_response [OF response_seen(3)]] by simp
qed simp_all

text \<open>What is fixed at the start, and what a configuration that is or will be in force has passed.\<close>

definition fixed_at_start ::
  "('n, 'b, 'c, 'a, 'r, 're, 'g) process \<Rightarrow> ('n, 'b, 'c, 'a, 'r, 're, 'g) process \<Rightarrow> bool" where
  "fixed_at_start s t \<longleftrightarrow> pc_pipeline t = pc_pipeline s \<and> pc_timer t = pc_timer s \<and> pc_pidfile t = pc_pidfile s"

definition configs_valid :: "('n, 'b, 'c, 'a, 'r, 're, 'g) process \<Rightarrow> bool" where
  "configs_valid s \<longleftrightarrow> validate (pc_config s) = None \<and>
     (case pc_supervisor s of Reloading cfg \<Rightarrow> validate cfg = None | Refreshing cfg \<Rightarrow> validate cfg = None | _ \<Rightarrow> True)"

lemma config_load_validates: "config_load read from_str path = Inr cfg \<Longrightarrow> validate cfg = None"
  by (auto simp: config_load_def split: sum.splits option.splits)

lemma proc_step_fixed: "proc_step E from_str path s e t \<Longrightarrow> fixed_at_start s t"
  by (induction rule: proc_step.induct)
     (simp_all add: fixed_at_start_def on_hangup_def on_fetched_def on_maintenance_def split: sum.split)

lemma proc_step_configs: "proc_step E from_str path s e t \<Longrightarrow> configs_valid s \<Longrightarrow> configs_valid t"
  by (induction rule: proc_step.induct)
     (auto simp: configs_valid_def on_hangup_def on_fetched_def on_maintenance_def
       dest: config_load_validates split: sum.split)

lemma proc_run_keeps:
  "proc_run E from_str path s es t \<Longrightarrow> waf_reachable E (pc_waf s) \<Longrightarrow> configs_valid s \<Longrightarrow>
     waf_reachable E (pc_waf t) \<and> configs_valid t"
proof (induction rule: proc_run.induct)
  case (run_cons s e t es u)
  from run_cons.IH proc_step_waf [OF run_cons.hyps(1) run_cons.prems(1)]
    proc_step_configs [OF run_cons.hyps(1) run_cons.prems(2)]
  show ?case by blast
qed simp

lemma proc_run_fixed: "proc_run E from_str path s es t \<Longrightarrow> fixed_at_start s t"
proof (induction rule: proc_run.induct)
  case (run_cons s e t es u)
  then show ?case using proc_step_fixed [OF run_cons.hyps(1)] by (simp add: fixed_at_start_def)
qed (simp add: fixed_at_start_def)

lemma run_start_Inr:
  assumes "run_start os E from_str path now W = (Inr s, W')"
  shows "\<exists>cfg p w pid. config_load (e_read E) from_str path = Inr cfg \<and>
    pipeline_from_config E now cfg = Inr (p, w) \<and> s = spawn_tasks p w cfg pid"
  using assms by (auto simp: run_start_def split: sum.splits prod.splits if_splits)

lemma pipeline_limits:
  "pipeline_from_config E now cfg = Inr (p, w) \<Longrightarrow>
     p_sanity p = sanity_from_config (limits cfg) \<and> p_on_error p = on_error (server cfg)"
  by (auto simp: pipeline_from_config_def split: sum.splits)

section \<open>Shutdown\<close>

fun task_rank :: "serve_task \<Rightarrow> nat" where
  "task_rank Binding = 2" | "task_rank Serving = 1" | "task_rank Returned = 0"

fun supervisor_rank :: "'n supervisor \<Rightarrow> nat" where
  "supervisor_rank Selecting = 1" | "supervisor_rank Stopped = 0" | "supervisor_rank _ = 2"

text \<open>How far a process is from its exit.\<close>

definition shutdown_rank :: "('n, 'b, 'c, 'a, 'r, 're, 'g) process \<Rightarrow> nat" where
  "shutdown_rank s = task_rank (pc_server s) + (case pc_admin s of None \<Rightarrow> 0 | Some a \<Rightarrow> task_rank a) +
     supervisor_rank (pc_supervisor s) + (if pc_exited s then 0 else 1)"

lemma task_rank_le: "task_rank a \<le> 2"
  by (cases a) simp_all

lemma supervisor_rank_le: "supervisor_rank a \<le> 2"
  by (cases a) simp_all

lemma shutdown_rank_le: "shutdown_rank s \<le> 7"
proof -
  have "(case pc_admin s of None \<Rightarrow> 0 | Some a \<Rightarrow> task_rank a) \<le> 2"
    using task_rank_le by (simp split: option.split)
  then show ?thesis
    using task_rank_le [of "pc_server s"] supervisor_rank_le [of "pc_supervisor s"]
    unfolding shutdown_rank_def by simp
qed

lemma shutdown_step:
  "proc_step E from_str path s e t \<Longrightarrow> pc_cancelled s \<Longrightarrow>
     pc_cancelled t \<and> e \<noteq> Accepted \<and> \<not> pc_exited s \<and>
     (e \<notin> {Hangup, RefreshTick} \<longrightarrow> shutdown_rank t \<le> shutdown_rank s)"
  by (induction rule: proc_step.induct)
     (auto simp: shutdown_rank_def on_hangup_def on_fetched_def on_maintenance_def split: sum.split)

lemma shutdown_progress:
  assumes "pc_cancelled s" "\<not> pc_exited s"
  shows "\<exists>e t. proc_step E from_str path s e t \<and> shutdown_rank t < shutdown_rank s \<and> pc_cancelled t"
proof -
  have b: "same_build E E" by (simp add: same_build_def)
  consider "pc_server s = Binding" | "pc_server s = Serving" | "pc_admin s = Some Binding"
    | "pc_admin s = Some Serving" | "pc_supervisor s = Fetching" | "pc_supervisor s = Selecting"
    | cfg where "pc_supervisor s = Reloading cfg" | cfg where "pc_supervisor s = Refreshing cfg" | "all_joined s"
    unfolding all_joined_def
    by (cases "pc_server s"; cases "pc_supervisor s"; cases "pc_admin s"; auto elim: task_rank.elims)
       (metis serve_task.exhaust)+
  moreover have step: ?thesis
    if "proc_step E from_str path s e t" "shutdown_rank t < shutdown_rank s" "pc_cancelled t" for e t
    using that by blast
  note live = \<open>\<not> pc_exited s\<close> and rank = shutdown_rank_def on_fetched_def
  ultimately show ?thesis
  proof cases
    case 1
    with assms show ?thesis by (intro step [OF server_bound [OF live]]) (simp_all add: rank)
  next
    case 2
    with assms show ?thesis by (intro step [OF server_returns [OF live]]) (simp_all add: rank)
  next
    case 3
    with assms show ?thesis by (intro step [OF admin_bound [OF live]]) (simp_all add: rank)
  next
    case 4
    with assms show ?thesis by (intro step [OF admin_returns [OF live]]) (simp_all add: rank)
  next
    case 5
    with assms show ?thesis
      by (intro step [OF first_fetch [where now = 0, OF live _ b]]) (simp_all add: rank)
  next
    case 6
    with assms show ?thesis by (intro step [OF supervisor_cancelled [OF live]]) (simp_all add: rank)
  next
    case 7
    with assms show ?thesis
      by (intro step [OF reload_done [where now = 0, OF live 7 b]]) (simp_all add: rank)
  next
    case 8
    with assms show ?thesis
      by (intro step [OF refresh_done [where now = 0, OF live 8 b]]) (simp_all add: rank)
  next
    case 9
    with assms show ?thesis by (intro step [OF exits [OF live]]) (simp_all add: rank)
  qed
qed

lemma shutdown_run:
  assumes "pc_cancelled s"
  shows "\<exists>es t. proc_run E from_str path s es t \<and> length es \<le> shutdown_rank s \<and> pc_exited t"
  using assms
proof (induction "shutdown_rank s" arbitrary: s rule: less_induct)
  case less
  show ?case
  proof (cases "pc_exited s")
    case True
    then show ?thesis using run_nil [of E from_str path s] by fastforce
  next
    case False
    then obtain e t where t: "proc_step E from_str path s e t" "shutdown_rank t < shutdown_rank s" "pc_cancelled t"
      using shutdown_progress [OF less.prems] by blast
    from less.hyps [OF t(2,3)] obtain es u
      where "proc_run E from_str path t es u" "length es \<le> shutdown_rank t" "pc_exited u" by blast
    with t show ?thesis using run_cons [OF t(1)]
      by (intro exI [of _ "e # es"] exI [of _ u]) auto
  qed
qed

section \<open>A reload under way\<close>

definition same_lists ::
  "('n, 'b, 'c, 'a, 'r, 're) waf_state \<Rightarrow> ('n, 'b, 'c, 'a, 'r, 're) waf_state \<Rightarrow> bool" where
  "same_lists w v \<longleftrightarrow> w_db v = w_db w \<and> w_allow v = w_allow w \<and> w_blocks v = w_blocks w"

lemma early_keeps_lists:
  "st \<in> set (early_stages E now p) \<Longrightarrow> same_lists v (snd (stage_state (st c v)))"
  by (auto simp: early_stages_def lift_stage_def reputation_inspect_def geo_inspect_def
      ratelimit_inspect_def sanity_inspect_def normalize_inspect_ret Let_def same_lists_def
      split: option.splits prod.splits)

lemma late_keeps_lists:
  "st \<in> set (late_stages E now) \<Longrightarrow> same_lists v (snd (stage_state (st c v)))"
  using rules_inspect_total [of "e_deps E" "e_rule E" now c "w_rules v"]
  by (auto simp: late_stages_def lift_stage_def signature_inspect_def same_lists_def split: option.split)

lemma run_keeps_lists:
  assumes "\<And>st c v. st \<in> set sts \<Longrightarrow> same_lists v (snd (stage_state (st c v)))"
    and "run pol sts ctx w = (d, c, u)"
  shows "same_lists w u"
proof -
  have "same_lists w (snd (snd (run pol sts ctx w)))"
  proof (rule run_keeps)
    show "same_lists w (snd (stage_state (st c v)))" if "st \<in> set sts" "same_lists w v" for st c v
      using assms(1) [OF that(1), of v c] that(2) by (simp add: same_lists_def)
  qed (simp add: same_lists_def)
  with assms(2) show ?thesis by simp
qed

lemma evaluate_early_lists: "evaluate_early E now p ctx w = (d, c, v) \<Longrightarrow> same_lists w v"
  unfolding evaluate_early_def by (erule run_keeps_lists [rotated]) (rule early_keeps_lists)

lemma evaluate_late_lists: "evaluate_late E now p ctx w = (d, c, v) \<Longrightarrow> same_lists w v"
  unfolding evaluate_late_def by (erule run_keeps_lists [rotated]) (rule late_keeps_lists)

lemma reloading_step:
  "proc_step E from_str path s e t \<Longrightarrow> pc_supervisor s = Reloading cfg \<Longrightarrow> e \<noteq> ReloadDone \<Longrightarrow>
     pc_supervisor t = Reloading cfg \<and> same_lists (pc_waf s) (pc_waf t) \<and> pc_config t = pc_config s"
  by (induction rule: proc_step.induct)
     (auto dest: evaluate_early_lists evaluate_late_lists
       simp: same_lists_def all_joined_def pipeline_evaluate_response_def split: prod.splits)

lemma reloading_run:
  "proc_run E from_str path s es t \<Longrightarrow> pc_supervisor s = Reloading cfg \<Longrightarrow> ReloadDone \<notin> set es \<Longrightarrow>
     pc_supervisor t = Reloading cfg \<and> same_lists (pc_waf s) (pc_waf t) \<and> pc_config t = pc_config s"
proof (induction rule: proc_run.induct)
  case (run_cons s e t es u)
  have "e \<noteq> ReloadDone" "ReloadDone \<notin> set es" using run_cons.prems(2) by auto
  with run_cons.prems(1) reloading_step [OF run_cons.hyps(1)] run_cons.IH show ?case
    by (simp add: same_lists_def)
qed (simp add: same_lists_def)

inductive_cases hangupE: "proc_step E from_str path s Hangup t"
inductive_cases reload_doneE: "proc_step E from_str path s ReloadDone t"

lemma broken_config_ignored:
  "config_load (e_read E) from_str path = Inl e \<Longrightarrow> on_hangup E from_str path now s = s"
  by (simp add: on_hangup_def)

section \<open>Properties\<close>


text \<open>C2: what no schedule of requests, reloads, refreshes, maintenance and shutdown can break. From any
  successful start the configuration in force has passed validation, no inspection stage panics on any
  request, and the structural limits, the fail policy, the refresh interval and the pid file are those
  of the configuration the process was started with: a reload does not change them.\<close>

theorem every_schedule_sound:
  assumes "run_start os E from_str path now W = (Inr s, W')" "proc_run E from_str path s es t"
    and "aho_laws (e_match E)" "rset_laws (e_match E)"
  shows "validate (pc_config t) = None \<and>
    (\<forall>st\<in>set (early_stages E n (pc_pipeline t) @ late_stages E n). \<forall>c x. st c (pc_waf t) \<noteq> Panic x) \<and>
    p_sanity (pc_pipeline t) = sanity_from_config (limits (pc_config s)) \<and>
    p_on_error (pc_pipeline t) = on_error (server (pc_config s)) \<and>
    pc_timer t = refresh_timer (pc_config s) \<and> pc_pidfile t = pc_pidfile s"
proof -
  obtain cfg p w pid where c: "config_load (e_read E) from_str path = Inr cfg"
    and p: "pipeline_from_config E now cfg = Inr (p, w)" and s: "s = spawn_tasks p w cfg pid"
    using run_start_Inr [OF assms(1)] by blast
  have "waf_reachable E (pc_waf s)"
    using reach_init [OF _ p] by (simp add: s spawn_tasks_def same_build_def)
  moreover have "configs_valid s"
    using config_load_validates [OF c] by (simp add: configs_valid_def s spawn_tasks_def)
  ultimately have t: "waf_reachable E (pc_waf t)" "configs_valid t" "fixed_at_start s t"
    using proc_run_keeps [OF assms(2)] proc_run_fixed [OF assms(2)] by blast+
  have "\<forall>st\<in>set (early_stages E n (pc_pipeline t) @ late_stages E n). \<forall>c x. st c (pc_waf t) \<noteq> Panic x"
    using stages_never_panic [OF waf_reachable_inv [OF t(1)] assms(3,4)] by blast
  with t(2,3) pipeline_limits [OF p] show ?thesis
    by (simp add: configs_valid_def fixed_at_start_def s spawn_tasks_def)
qed


text \<open>A build without optional features, one configuration file, and a run of it.\<close>

definition sinst ::
  "(hdrs, cidr, bucket_table, counter_cache, string list, string list, string, unit) waf_env" where
  "sinst = winst\<lparr>e_read := (\<lambda>f. if f = ''budu.toml'' then Inr [] else Inl ''no file'')\<rparr>"

definition sample_toml :: "string \<Rightarrow> string + cidr config" where
  "sample_toml _ = Inr sample_config"

lemma sinst_load: "config_load (e_read sinst) sample_toml ''budu.toml'' = Inr sample_config"
  by (simp add: config_load_def sinst_def sample_toml_def validate_def sample_config_def Let_def
      trim_ascii_id is_ascii_def ascii_ws_def bv_def)

lemma sinst_pipeline: "pipeline_from_config sinst now sample_config = pipeline_from_config winst now sample_config"
proof -
  have paths: "trim (blocklist_file (reputation sample_config)) = []" "trim (allowlist_file (reputation sample_config)) = []"
    "trim (signatures_path (paths sample_config)) = []" "trim (rules_path (paths sample_config)) = []"
    by (simp_all add: sample_config_def)
  have parts: "e_deps sinst = e_deps winst" "f_fail2ban sinst = f_fail2ban winst"
    "load_signatures sinst sample_config = load_signatures winst sample_config"
    "load_rules sinst sample_config tz = load_rules winst sample_config tz"
    "load_allowlist sinst now sample_config = load_allowlist winst now sample_config"
    "load_geo sinst sample_config = load_geo winst sample_config"
    "build_blocks (e_deps winst) f (e_read sinst) now (reputation sample_config) =
      build_blocks (e_deps winst) f (e_read winst) now (reputation sample_config)" for tz f
    by (simp_all add: sinst_def load_signatures_def db_load_def load_rules_def rules_load_def load_allowlist_def
        build_allowlist_def build_blocks_def build_list_def load_geo_def paths)
  show ?thesis by (simp only: pipeline_from_config_def parts)
qed

lemma sinst_start:
  "\<exists>s. run_start os_inst sinst sample_toml ''budu.toml'' 0 ban_files = (Inr s, ban_files) \<and>
     pc_supervisor s = Fetching \<and> \<not> pc_exited s \<and> pc_config s = sample_config"
proof -
  obtain p w where "pipeline_from_config sinst 0 sample_config = Inr (p, w)"
    using winst_starts [of 0] unfolding sinst_pipeline by blast
  moreover have "init_tracing os_inst sample_config ban_files = (Inr StdoutOnly, ban_files)"
    by (simp add: init_tracing_def sample_config_def)
  moreover have "pidfile_write os_inst (pidfile (server sample_config)) ban_files = (Inr None, ban_files)"
    by (simp add: pidfile_write_def sample_config_def)
  ultimately show ?thesis
    by (simp add: run_start_def sinst_load spawn_tasks_def)
qed

text \<open>It is started, fetches, and reloads; a termination signal during the reload is lost, the next one
  is not.\<close>

lemma sinst_run:
  "\<exists>s s1 s2 t u. run_start os_inst sinst sample_toml ''budu.toml'' 0 ban_files = (Inr s, ban_files) \<and>
     proc_step sinst sample_toml ''budu.toml'' s Fetched s1 \<and>
     proc_step sinst sample_toml ''budu.toml'' s1 Hangup s2 \<and> pc_supervisor s2 = Reloading sample_config \<and>
     proc_step sinst sample_toml ''budu.toml'' s2 SignalLost s2 \<and>
     proc_step sinst sample_toml ''budu.toml'' s2 ReloadDone t \<and>
     proc_step sinst sample_toml ''budu.toml'' t Shutdown u \<and> pc_cancelled u \<and> \<not> pc_exited u"
proof -
  have b: "same_build sinst sinst" by (simp add: same_build_def)
  obtain s where s: "run_start os_inst sinst sample_toml ''budu.toml'' 0 ban_files = (Inr s, ban_files)"
    "pc_supervisor s = Fetching" "\<not> pc_exited s"
    using sinst_start by blast
  define s1 where "s1 = on_fetched sinst 0 (pc_config s) s"
  define s2 where "s2 = on_hangup sinst sample_toml ''budu.toml'' 0 s1"
  define t where "t = on_fetched sinst 0 sample_config s2\<lparr>pc_config := sample_config\<rparr>"
  have s1: "proc_step sinst sample_toml ''budu.toml'' s Fetched s1" "pc_supervisor s1 = Selecting" "\<not> pc_exited s1"
    unfolding s1_def by (rule first_fetch [OF s(3,2) b]) (simp_all add: on_fetched_def s(3))
  have s2: "proc_step sinst sample_toml ''budu.toml'' s1 Hangup s2"
    "pc_supervisor s2 = Reloading sample_config" "\<not> pc_exited s2"
    unfolding s2_def by (rule hangup [OF s1(3,2) b]) (simp_all add: on_hangup_def sinst_load s1(3))
  have l: "proc_step sinst sample_toml ''budu.toml'' s2 SignalLost s2"
    by (rule signal_lost [OF s2(3), where cfg = sample_config]) (simp add: s2(2))
  have t: "proc_step sinst sample_toml ''budu.toml'' s2 ReloadDone t" "pc_supervisor t = Selecting" "\<not> pc_exited t"
    unfolding t_def by (rule reload_done [OF s2(3,2) b]) (simp_all add: on_fetched_def s2(3))
  have "proc_step sinst sample_toml ''budu.toml'' t Shutdown (t\<lparr>pc_supervisor := Stopped, pc_cancelled := True\<rparr>)"
    by (rule shutdown [OF t(3,2)])
  moreover have "pc_cancelled (t\<lparr>pc_supervisor := Stopped, pc_cancelled := True\<rparr>)"
    "\<not> pc_exited (t\<lparr>pc_supervisor := Stopped, pc_cancelled := True\<rparr>)" using t(3) by simp_all
  ultimately show ?thesis using s(1) s1(1) s2(1,2) l t(1) by blast
qed

lemma sinst_sel: "e_match sinst = minst" "e_deps sinst = inst"
  by (simp_all add: sinst_def)


theorem every_schedule_sound_witness:
  "\<exists>s t. run_start os_inst sinst sample_toml ''budu.toml'' 0 ban_files = (Inr s, ban_files) \<and>
     proc_run sinst sample_toml ''budu.toml'' s [Fetched, Hangup, SignalLost, ReloadDone] t \<and>
     validate (pc_config t) = None \<and> p_sanity (pc_pipeline t) = sanity_from_config (limits (pc_config s))"
proof -
  obtain s s1 s2 t where r: "run_start os_inst sinst sample_toml ''budu.toml'' 0 ban_files = (Inr s, ban_files)"
    "proc_step sinst sample_toml ''budu.toml'' s Fetched s1" "proc_step sinst sample_toml ''budu.toml'' s1 Hangup s2"
    "proc_step sinst sample_toml ''budu.toml'' s2 SignalLost s2" "proc_step sinst sample_toml ''budu.toml'' s2 ReloadDone t"
    using sinst_run by blast
  then have run: "proc_run sinst sample_toml ''budu.toml'' s [Fetched, Hangup, SignalLost, ReloadDone] t"
    by (blast intro: run_cons run_nil)
  from every_schedule_sound [OF r(1) run, of 0] r(1) run show ?thesis
    using minst_laws by (auto simp: sinst_sel)
qed


end
