(* ===== verification/Modsec_Plain.thy ===== *)
theory Modsec_Plain
  imports Modsec Rule_Eval
begin

text \<open>
  Importing whole files with \<open>crates/budu-rules/src/modsec.rs\<close>: what the tokenizers, the action parser and
  the conversion loop make of rules in their plainest form. Shown: such a file is converted rule by rule,
  with nothing lost or added, and the imported rules decide as they read.
\<close>

section \<open>Plain rules\<close>

text \<open>A rule in the plainest form: one variable, one operator with its operand, an id and \<open>deny\<close>.\<close>

definition word_char :: "char \<Rightarrow> bool" where
  "word_char c \<longleftrightarrow> is_ascii_alphanumeric c \<or> c = CHR ''_''"

definition secrule_text :: "string \<Rightarrow> string \<Rightarrow> string \<Rightarrow> nat \<Rightarrow> string" where
  "secrule_text var op arg n =
     ''SecRule '' @ var @ CHR '' '' # CHR 0x22 # (CHR ''@'' # op @ CHR '' '' # arg) @
     CHR 0x22 # CHR '' '' # CHR 0x22 # (''id:'' @ show_nat n @ '',deny'') @ [CHR 0x22]"

definition plain_arg :: "string \<Rightarrow> bool" where
  "plain_arg a \<longleftrightarrow> a \<noteq> [] \<and> list_all is_ascii a \<and> \<not> ascii_ws (hd a) \<and> \<not> ascii_ws (last a) \<and>
     set a \<inter> {nl, cr, CHR 0x22, CHR 0x5C} = {} \<and> \<not> contains_str a ''%{''"

definition plain_word :: "string \<Rightarrow> bool" where
  "plain_word w \<longleftrightarrow> w \<noteq> [] \<and> list_all word_char w"

lemma word_char_plain:
  assumes "word_char c"
  shows "is_ascii c" "\<not> ascii_ws c"
    "c \<notin> {CHR 0x22, CHR 0x27, CHR 0x5C, CHR ''|'', CHR '':'', CHR ''&'', CHR ''!'', CHR ''@'', nl, cr}"
  using assms by (auto simp: word_char_def is_ascii_alphanumeric_def is_ascii_upper_def is_ascii_lower_def
      is_ascii_digit_def is_ascii_def ascii_ws_def nl_cr_char bv_def)

lemma quoted_plain: "q \<notin> set t \<Longrightarrow> CHR 0x5C \<notin> set t \<Longrightarrow> q \<noteq> CHR 0x5C \<Longrightarrow> quoted q (t @ q # s) = (t, s)"
proof (induction t)
  case Nil
  then show ?case by (cases s) simp_all
next
  case (Cons c t)
  then show ?case by (cases "t @ q # s") auto
qed

lemma unquoted_word: "list_all word_char v \<Longrightarrow> unquoted (v @ CHR '' '' # s) = (v, CHR '' '' # s)"
proof (induction v)
  case Nil
  then show ?case by (simp add: ws_len_ascii is_ascii_def ascii_ws_def bv_def del: ws_len.simps)
next
  case (Cons c v)
  then show ?case using word_char_plain [of c] by (simp add: ws_len_ascii del: ws_len.simps)
qed

lemma tokenize_Nil: "tokenize [] = []"
  by (subst tokenize.simps) simp

lemma tokenize_space: "tokenize (CHR '' '' # s) = tokenize s"
  by (subst tokenize.simps) (simp add: ws_len_ascii is_ascii_def ascii_ws_def bv_def del: ws_len.simps)

lemma tokenize_word:
  assumes "plain_word v"
  shows "tokenize (v @ CHR '' '' # s) = v # tokenize s"
proof -
  obtain c r where v: "v = c # r" "word_char c" using assms by (cases v) (auto simp: plain_word_def)
  then have "ws_len (v @ CHR '' '' # s) = 0" using word_char_plain [of c] by (simp add: ws_len_ascii del: ws_len.simps)
  then show ?thesis
    using unquoted_word [of v s] assms v word_char_plain [of c]
    by (subst tokenize.simps) (simp add: plain_word_def tokenize_space del: ws_len.simps)
qed

lemma tokenize_quoted:
  assumes "CHR 0x22 \<notin> set t" "CHR 0x5C \<notin> set t"
  shows "tokenize (CHR 0x22 # t @ CHR 0x22 # s) = t # tokenize s"
  using quoted_plain [OF assms, of s]
  by (subst tokenize.simps) (simp add: ws_len_ascii is_ascii_def ascii_ws_def bv_def del: ws_len.simps)

lemma trim_word: "plain_word w \<Longrightarrow> trim w = w"
  using word_char_plain by (intro trim_ascii_id) (auto simp: plain_word_def list_all_iff)

lemma split_char_none: "sep \<notin> set s \<Longrightarrow> split_char sep s = [s]"
  by (induction s) auto

lemma strip_prefix_other: "c \<noteq> hd s \<Longrightarrow> s \<noteq> [] \<Longrightarrow> strip_prefix [c] s = None"
  by (cases s) (auto simp: strip_prefix_def starts_with_def)

lemma parse_vars_word:
  assumes "plain_word v"
  shows "parse_vars v = [\<lparr>rv_name = v, rv_selector = None, rv_count = False, rv_exclude = False\<rparr>]"
proof -
  have n: "c \<notin> set v" if "c \<in> {CHR ''|'', CHR '':'', CHR ''&'', CHR ''!''}" for c
    using that assms word_char_plain(3) by (auto simp: plain_word_def list_all_iff)
  have h: "v \<noteq> []" "hd v \<in> set v" using assms by (simp_all add: plain_word_def)
  have "hd v \<noteq> CHR ''&''" "hd v \<noteq> CHR ''!''" using n h(2) by auto
  then have "strip_prefix ''&'' v = None" "strip_prefix ''!'' v = None"
    using h(1) strip_prefix_other by metis+
  moreover have "split_once (CHR '':'') v = None" "split_char (CHR ''|'') v = [v]"
    using n by (simp_all add: split_once_None_iff split_char_none)
  ultimately show ?thesis
    using h(1) trim_word [OF assms] by (simp add: parse_vars_def parse_var_def)
qed

lemma split_once_ws_word: "list_all word_char w \<Longrightarrow> split_once_ws (w @ CHR '' '' # a) = Some (w, a)"
proof (induction w)
  case Nil
  then show ?case by (simp add: ws_len_ascii is_ascii_def ascii_ws_def bv_def del: ws_len.simps)
next
  case (Cons c v)
  then show ?case using word_char_plain [of c] by (simp add: ws_len_ascii del: ws_len.simps)
qed

lemma plain_arg_trim: "plain_arg a \<Longrightarrow> trim a = a"
  by (intro trim_ascii_id) (auto simp: plain_arg_def list_all_iff)

lemma parse_operator_plain:
  assumes "plain_word op" "plain_arg a"
  shows "parse_operator (CHR ''@'' # op @ CHR '' '' # a) = (op, a, False)"
proof -
  have "trim (CHR ''@'' # op @ CHR '' '' # a) = CHR ''@'' # op @ CHR '' '' # a"
    using assms(2) by (intro trim_ascii_id) (auto simp: plain_arg_def list_all_iff is_ascii_def ascii_ws_def bv_def)
  moreover have "strip_prefix ''!'' (CHR ''@'' # op @ CHR '' '' # a) = None"
    by (simp add: strip_prefix_other)
  moreover have "strip_prefix ''@'' (CHR ''@'' # op @ CHR '' '' # a) = Some (op @ CHR '' '' # a)"
    by (simp add: strip_prefix_Some_iff)
  ultimately show ?thesis
    using split_once_ws_word [of op a] assms(1) plain_arg_trim [OF assms(2)]
    by (simp add: parse_operator_def plain_word_def)
qed

lemma action_loop_plain:
  "CHR 0x27 \<notin> set t \<Longrightarrow> CHR '','' \<notin> set t \<Longrightarrow> action_loop (t @ r) False buf = action_loop r False (buf @ t)"
  by (induction t arbitrary: buf) auto

lemma show_nat_special:
  "CHR 0x27 \<notin> set (show_nat n)" "CHR '','' \<notin> set (show_nat n)" "CHR 0x22 \<notin> set (show_nat n)"
  "CHR 0x5C \<notin> set (show_nat n)" "nl \<notin> set (show_nat n)" "cr \<notin> set (show_nat n)"
  using show_nat_digits [of "CHR 0x27" n] show_nat_digits [of "CHR '',''" n] show_nat_digits [of "CHR 0x22" n]
    show_nat_digits [of "CHR 0x5C" n] show_nat_digits [of nl n] show_nat_digits [of cr n]
  by (auto simp: digit_val_def bv_def nl_cr_char)

lemma split_actions_plain:
  "split_actions (''id:'' @ show_nat n @ '',deny'') = [(''id'', Some (show_nat n)), (''deny'', None)]"
proof -
  have d: "CHR 0x27 \<notin> set (show_nat n)" "CHR '','' \<notin> set (show_nat n)" by (rule show_nat_special)+
  have "trim (''id:'' @ show_nat n) = ''id:'' @ show_nat n"
    using show_nat_nonempty [of n] digit_ascii [OF show_nat_digits, OF last_in_set, of n]
    by (intro trim_ascii_id) (auto simp: is_ascii_def ascii_ws_def bv_def)
  moreover have "split_once (CHR '':'') (''id:'' @ show_nat n) = Some (''id'', show_nat n)"
    by (simp add: split_once_Some_iff)
  moreover have "dropWhile ((=) (CHR 0x27)) s = s" if "CHR 0x27 \<notin> set s" for s
    using that by (cases s) auto
  then have "trim_matches (CHR 0x27) (show_nat n) = show_nat n"
    using d(1) by (simp add: trim_matches_def)
  moreover have "trim ''id'' = ''id''" "trim ''deny'' = ''deny''" "split_once (CHR '':'') ''deny'' = None" by code_simp+
  ultimately have "push_action (''id:'' @ show_nat n) = [(''id'', Some (show_nat n))]" "push_action ''deny'' = [(''deny'', None)]"
    by (simp_all add: push_action_def)
  then show ?thesis
    using action_loop_plain [of "''id:'' @ show_nat n" "'',deny''" "[]"] d by (simp add: split_actions_def)
qed

lemma parse_secrule_plain:
  assumes "plain_word v" "plain_word op" "plain_arg a"
  shows "parse_secrule (v @ CHR '' '' # CHR 0x22 # (CHR ''@'' # op @ CHR '' '' # a) @
      CHR 0x22 # CHR '' '' # CHR 0x22 # (''id:'' @ show_nat n @ '',deny'') @ [CHR 0x22]) =
    Inr \<lparr>pr_vars = [\<lparr>rv_name = v, rv_selector = None, rv_count = False, rv_exclude = False\<rparr>],
      pr_op_name = op, pr_op_arg = a, pr_negate = False, pr_transforms = [], pr_id = Some (show_nat n),
      pr_phase = 2, pr_disrupt = True, pr_allow = False, pr_pass = False, pr_status = None, pr_msg = [],
      pr_score = None, pr_chain = False\<rparr>"
proof -
  have "CHR 0x22 \<notin> set op" "CHR 0x5C \<notin> set op"
    using assms(2) word_char_plain(3) by (auto simp: plain_word_def list_all_iff)
  then have o: "CHR 0x22 \<notin> set (CHR ''@'' # op @ CHR '' '' # a)" "CHR 0x5C \<notin> set (CHR ''@'' # op @ CHR '' '' # a)"
    using assms(3) by (auto simp: plain_arg_def)
  have i: "CHR 0x22 \<notin> set (''id:'' @ show_nat n @ '',deny'')" "CHR 0x5C \<notin> set (''id:'' @ show_nat n @ '',deny'')"
    by (simp_all add: show_nat_special)
  note tokenize_quoted [OF o, of "CHR '' '' # CHR 0x22 # (''id:'' @ show_nat n @ '',deny'') @ [CHR 0x22]"]
    tokenize_quoted [OF i, of "[]"]
  then show ?thesis
    using tokenize_word [OF assms(1)] parse_vars_word [OF assms(1)] parse_operator_plain [OF assms(2,3)]
      split_actions_plain [of n]
    by (simp add: parse_secrule_def tokenize_space tokenize_Nil apply_action_def)
qed

definition raw_word :: "string \<Rightarrow> raw_var" where
  "raw_word v = \<lparr>rv_name = v, rv_selector = None, rv_count = False, rv_exclude = False\<rparr>"

definition importable :: "string \<times> string \<times> string \<times> nat \<Rightarrow> bool" where
  "importable r = (case r of (v, op, a, n) \<Rightarrow>
     plain_word v \<and> map_var (raw_word v) \<noteq> None \<and> map_of operand_ops op \<noteq> None \<and> plain_arg a)"

definition plain_rule :: "string \<times> string \<times> string \<times> nat \<Rightarrow> emitted_rule" where
  "plain_rule r = (case r of (v, op, a, n) \<Rightarrow>
     \<lparr>er_id = ''crs-'' @ show_nat n, er_phase = None, er_action = ''block'', er_status = Some 403, er_msg = [],
      er_score = 0, er_when = [\<lparr>em_field = fst (the (map_var (raw_word v))), em_name = None,
        em_op = the (map_of operand_ops op), em_value = Some a, em_negate = False, em_transform = []\<rparr>]\<rparr>)"

lemma operand_op_word: "map_of operand_ops op \<noteq> None \<Longrightarrow> plain_word op"
  by (auto simp: operand_ops_def plain_word_def word_char_def is_ascii_alphanumeric_def is_ascii_upper_def
      is_ascii_lower_def is_ascii_digit_def bv_def split: if_splits)

lemma map_var_word: "map_var (raw_word v) = Some (f, n) \<Longrightarrow> n = None"
  by (auto simp: map_var_def raw_word_def Let_def split: if_splits)

lemma map_operator_operand:
  "map_of operand_ops op = Some b \<Longrightarrow> \<not> contains_str a ''%{'' \<Longrightarrow> map_operator op a ws = (Inr (b, Some a), ws)"
proof -
  assume "map_of operand_ops op = Some b" "\<not> contains_str a ''%{''"
  moreover have "map_of operand_ops ''detectSQLi'' = None" "map_of operand_ops ''detectXSS'' = None" by code_simp+
  ultimately show "map_operator op a ws = (Inr (b, Some a), ws)" by (auto simp: map_operator_def)
qed

lemma build_plain:
  assumes "importable (v, op, a, n)"
  shows "build_rules [\<lparr>pr_vars = [raw_word v],
      pr_op_name = op, pr_op_arg = a, pr_negate = False, pr_transforms = [], pr_id = Some (show_nat n),
      pr_phase = 2, pr_disrupt = True, pr_allow = False, pr_pass = False, pr_status = None, pr_msg = [],
      pr_score = None, pr_chain = False\<rparr>] ws = (Inr [plain_rule (v, op, a, n)], ws)"
proof -
  obtain f m b where m: "map_var (raw_word v) = Some (f, m)" "map_of operand_ops op = Some b" "\<not> contains_str a ''%{''"
    using assms by (auto simp: importable_def plain_arg_def)
  with map_var_word [OF m(1)] map_operator_operand [OF m(2,3), of ws] show ?thesis
    by (simp add: build_rules_def map_member_conditions_def map_filter_simps starter_action_def plain_rule_def
        unwrap_or_def raw_word_def)
qed

lemma convert_plain_step:
  assumes "importable r"
  shows "convert_loop ((case r of (v, op, a, n) \<Rightarrow> secrule_text v op a n) # ls) acc =
    convert_loop ls (acc\<lparr>ca_rules := ca_rules acc @ [plain_rule r], ca_converted := ca_converted acc + 1\<rparr>)"
proof -
  obtain v op a n where r: "r = (v, op, a, n)" by (cases r)
  let ?rest = "v @ CHR '' '' # CHR 0x22 # (CHR ''@'' # op @ CHR '' '' # a) @
      CHR 0x22 # CHR '' '' # CHR 0x22 # (''id:'' @ show_nat n @ '',deny'') @ [CHR 0x22]"
  have w: "plain_word v" "plain_word op" "plain_arg a"
    using assms operand_op_word by (auto simp: importable_def r)
  have t: "trim (secrule_text v op a n) = secrule_text v op a n"
    by (intro trim_ascii_id) (simp_all add: secrule_text_def is_ascii_def ascii_ws_def bv_def)
  have "\<not> blank_or_comment (secrule_text v op a n)"
    unfolding blank_or_comment_def t by (simp add: secrule_text_def starts_with_def)
  moreover have "ws_len ?rest = 0"
    using w(1) word_char_plain [of "hd v"] by (cases v) (simp_all add: plain_word_def ws_len_ascii del: ws_len.simps)
  then have "trim_start (CHR '' '' # ?rest) = ?rest"
    by (subst trim_start.simps) (simp add: ws_len_ascii is_ascii_def ascii_ws_def bv_def trim_start_id del: ws_len.simps)
  then have "directive_arg (trim (secrule_text v op a n)) ''SecRule'' = Some ?rest"
    unfolding directive_arg_def t
    by (simp add: secrule_text_def strip_prefix_def starts_with_def Let_def)
  moreover have "chain_members False ls = ([], ls)" by (cases ls) simp_all
  ultimately show ?thesis
    using parse_secrule_plain [OF w, of n] build_plain [OF assms [unfolded r], of "ca_warnings acc"]
    by (simp add: r raw_word_def Let_def del: convert_loop.simps(1))
qed

lemma join_loop_plain:
  "\<forall>l\<in>set ls. strip_suffix [cr] l = None \<and> strip_suffix [CHR 0x5C] l = None \<Longrightarrow> join_loop ls [] = ls"
  by (induction ls) (simp_all add: unwrap_or_def)

lemma secrule_text_line:
  assumes "importable (v, op, a, n)"
  shows "nl \<notin> set (secrule_text v op a n)" "strip_suffix [cr] (secrule_text v op a n) = None"
    "strip_suffix [CHR 0x5C] (secrule_text v op a n) = None"
proof -
  have "nl \<notin> set v" "nl \<notin> set op" "nl \<notin> set a"
    using assms operand_op_word [of op] word_char_plain(3) [of nl]
    by (auto simp: importable_def plain_word_def list_all_iff plain_arg_def)
  then show "nl \<notin> set (secrule_text v op a n)"
    using show_nat_special(5) [of n] by (simp add: secrule_text_def nl_cr_char)
  have "last (secrule_text v op a n) = CHR 0x22" by (simp add: secrule_text_def)
  then show "strip_suffix [cr] (secrule_text v op a n) = None" "strip_suffix [CHR 0x5C] (secrule_text v op a n) = None"
    using strip_suffix_Some_iff [of "[cr]" "secrule_text v op a n"]
      strip_suffix_Some_iff [of "[CHR 0x5C]" "secrule_text v op a n"]
    by (auto simp: nl_cr_char simp flip: not_Some_eq)
qed

lemma convert_plain_rules:
  assumes "list_all importable rs"
  shows "convert_run (unlines (map (\<lambda>(v, op, a, n). secrule_text v op a n) rs)) =
    \<lparr>ca_rules = map plain_rule rs, ca_converted = length rs, ca_skipped = [], ca_warnings = []\<rparr>"
proof -
  let ?ls = "map (\<lambda>(v, op, a, n). secrule_text v op a n) rs"
  have l: "nl \<notin> set l \<and> strip_suffix [cr] l = None \<and> strip_suffix [CHR 0x5C] l = None" if "l \<in> set ?ls" for l
    using that assms secrule_text_line by (auto simp: list_all_iff)
  then have "lines (unlines ?ls) = ?ls"
    by (simp add: lines_unlines unwrap_or_def map_idI)
  with l have j: "join_continuations (unlines ?ls) = ?ls"
    by (simp only: join_continuations_def) (rule join_loop_plain, blast)
  have "convert_loop ?ls acc =
      acc\<lparr>ca_rules := ca_rules acc @ map plain_rule rs, ca_converted := ca_converted acc + length rs\<rparr>" for acc
    using assms
  proof (induction rs arbitrary: acc)
    case (Cons r rs)
    then show ?case using convert_plain_step [of r] by (simp del: convert_loop.simps(2))
  qed simp
  then show ?thesis by (simp add: convert_run_def j)
qed

section \<open>What imported rules decide\<close>

text \<open>How a rule reads: the part of the request a variable names, and the test an operator makes of an
  operand and a value.\<close>

definition secrule_fields :: "(string \<times> field) list" where
  "secrule_fields =
     [(''ARGS'', FArgs), (''ARGS_NAMES'', FArgNames), (''QUERY_STRING'', FQuery), (''REQUEST_URI'', FUri),
      (''REQUEST_FILENAME'', FPath), (''REQUEST_METHOD'', FMethod), (''REQUEST_BODY'', FBody),
      (''REQUEST_HEADERS'', FHeaders), (''REQUEST_HEADERS_NAMES'', FHeaderNames),
      (''REQUEST_COOKIES'', FCookies), (''REQUEST_COOKIES_NAMES'', FCookieNames)]"

definition secrule_field :: "string \<Rightarrow> field option" where
  "secrule_field v = map_of secrule_fields v"

definition secrule_test :: "string \<Rightarrow> (string \<Rightarrow> string \<Rightarrow> bool) option" where
  "secrule_test op = map_of
     [(''contains'', \<lambda>a x. \<exists>p q. x = p @ a @ q), (''beginsWith'', \<lambda>a x. \<exists>q. x = a @ q),
      (''endsWith'', \<lambda>a x. \<exists>p. x = p @ a), (''streq'', \<lambda>a x. x = a)] op"

definition readable :: "string \<times> string \<times> string \<times> nat \<Rightarrow> bool" where
  "readable r = (case r of (v, op, a, n) \<Rightarrow> secrule_field v \<noteq> None \<and> secrule_test op \<noteq> None \<and> plain_arg a)"

definition rule_hits ::
  "('h, 'n, 'b, 'c, 'z) limit_deps_scheme \<Rightarrow> ('re, 'y) rule_deps_scheme \<Rightarrow> u64 \<Rightarrow> 'c \<Rightarrow> 'h request_ctx \<Rightarrow>
     string \<times> string \<times> string \<times> nat \<Rightarrow> bool" where
  "rule_hits D R now store ctx r = (case r of (v, op, a, n) \<Rightarrow>
     (case (secrule_field v, secrule_test op) of
        (Some f, Some T) \<Rightarrow> list_ex (T a) (collect_candidates D R now store ctx f)
      | _ \<Rightarrow> False))"

text \<open>The compiled form of such a rule.\<close>

definition plain_oper :: "string \<Rightarrow> string \<Rightarrow> ('re, 'n) oper" where
  "plain_oper op a =
     (if op = ''contains'' then OContains a else if op = ''beginsWith'' then OStartsWith a
      else if op = ''endsWith'' then OEndsWith a else OEq a)"

definition plain_compiled :: "string \<times> string \<times> string \<times> nat \<Rightarrow> ('re, 'n, 'b) compiled_rule" where
  "plain_compiled r = (case r of (v, op, a, n) \<Rightarrow>
     \<lparr>r_id = ''crs-'' @ show_nat n, r_action = ABlock 403 (''crs-'' @ show_nat n),
      r_conds = [\<lparr>cc_field = the (secrule_field v), cc_op = plain_oper op a, cc_negate = False, cc_transforms = []\<rparr>]\<rparr>)"

definition field_maps :: "string \<times> field \<Rightarrow> bool" where
  "field_maps e = (case e of (v, f) \<Rightarrow>
     plain_word v \<and> f \<notin> {FIp, FTime, FDay} \<and> \<not> resp_field f \<and>
     (case map_var (raw_word v) of
        Some (s, None) \<Rightarrow> map_of plain_fields s = Some f \<and>
          s \<notin> {''header'', ''arg'', ''counter'', ''resp_header'', ''cookie''}
      | _ \<Rightarrow> False))"

lemma secrule_fields_map: "list_all field_maps secrule_fields"
  by code_simp

lemma secrule_field_maps:
  assumes "secrule_field v = Some f"
  shows "plain_word v" "\<exists>s. map_var (raw_word v) = Some (s, None) \<and> map_of plain_fields s = Some f \<and>
      s \<notin> {''header'', ''arg'', ''counter'', ''resp_header'', ''cookie''}"
    "f \<notin> {FIp, FTime, FDay} \<and> \<not> resp_field f"
proof -
  have "field_maps (v, f)"
    using assms secrule_fields_map map_of_SomeD [of secrule_fields v f] by (auto simp: secrule_field_def list_all_iff)
  then show "plain_word v" "\<exists>s. map_var (raw_word v) = Some (s, None) \<and> map_of plain_fields s = Some f \<and>
      s \<notin> {''header'', ''arg'', ''counter'', ''resp_header'', ''cookie''}"
    "f \<notin> {FIp, FTime, FDay} \<and> \<not> resp_field f"
    unfolding field_maps_def by (auto split: option.splits prod.splits)
qed

lemma secrule_test_cases:
  assumes "secrule_test op = Some T"
  obtains (contains) "op = ''contains''" "T = (\<lambda>a x. \<exists>p q. x = p @ a @ q)"
    | (begins) "op = ''beginsWith''" "T = (\<lambda>a x. \<exists>q. x = a @ q)"
    | (ends) "op = ''endsWith''" "T = (\<lambda>a x. \<exists>p. x = p @ a)"
    | (equal) "op = ''streq''" "T = (\<lambda>a x. x = a)"
  using assms unfolding secrule_test_def by (auto split: if_splits)

lemma secrule_test_maps:
  assumes "secrule_test op = Some T"
  shows "\<exists>b. map_of operand_ops op = Some b \<and>
      (\<forall>D R c f tz. cd_op c = b \<longrightarrow> compile_op D R c f tz = Inr (plain_oper op (cd_value c)))"
    "eval_op R (plain_oper op a) = T a"
  using assms by (cases rule: secrule_test_cases;
    simp add: operand_ops_def compile_op_def plain_oper_def eval_op_def fun_eq_iff contains_str_iff starts_with_iff
      ends_with_iff)+

lemma readable_importable: "readable r \<Longrightarrow> importable r"
proof -
  assume r: "readable r"
  obtain v op a n where v: "r = (v, op, a, n)" by (cases r)
  from r obtain f T where "secrule_field v = Some f" "secrule_test op = Some T" "plain_arg a"
    by (auto simp: readable_def v)
  with secrule_field_maps [of v f] secrule_test_maps(1) [of op T] show "importable r"
    by (auto simp: importable_def v)
qed

lemma plain_rule_compiles:
  assumes "readable r" "status_ok D 403"
  shows "\<exists>d. read_rule (plain_rule r) = Some d \<and> rd_phase d = PhRequest \<and>
    compile_rule D R tz d = Inr (plain_compiled r)"
proof -
  obtain v op a n where r: "r = (v, op, a, n)" by (cases r)
  with assms obtain f T where f: "secrule_field v = Some f" and t: "secrule_test op = Some T"
    by (auto simp: readable_def)
  obtain s where s: "map_var (raw_word v) = Some (s, None)" "map_of plain_fields s = Some f"
    "s \<notin> {''header'', ''arg'', ''counter'', ''resp_header'', ''cookie''}"
    using secrule_field_maps(2) [OF f] by blast
  obtain b where b: "map_of operand_ops op = Some b"
    "\<And>c f tz. cd_op c = b \<Longrightarrow> compile_op D R c f tz = Inr (plain_oper op (cd_value c))"
    using secrule_test_maps(1) [OF t] by blast
  obtain d where d: "read_rule (plain_rule r) = Some d"
    by (simp add: read_rule_def read_action_def plain_rule_def r)
  have w: "rd_when d = [\<lparr>cd_field = s, cd_name = [], cd_op = b, cd_value = a, cd_values = [], cd_negate = False,
      cd_transform = [], cd_tz = []\<rparr>]" (is "_ = [?c]")
    and x: "rd_phase d = PhRequest" "rd_action d = AkBlock" "rd_status d = 403" "rd_msg d = []"
      "rd_id d = ''crs-'' @ show_nat n"
    using d s(1) b(1) by (auto simp: read_rule_def read_action_def plain_rule_def r read_cond_def unwrap_or_def)
  have "compile_field ?c = Inr f" using s by (simp add: compile_field_def)
  then have "compile_cond D R tz ?c =
      Inr \<lparr>cc_field = f, cc_op = plain_oper op a, cc_negate = False, cc_transforms = []\<rparr>"
    using b(2) [of ?c f tz] secrule_field_maps(3) [OF f] by (simp add: compile_cond_def)
  moreover have "compile_action D d = Inr (ABlock 403 (''crs-'' @ show_nat n))"
    using x assms(2) by (simp add: compile_action_def)
  ultimately have "compile_rule D R tz d = Inr (plain_compiled r)"
    using w x secrule_field_maps(3) [OF f] by (simp add: compile_rule_def plain_compiled_def r f)
  with d x(1) show ?thesis by blast
qed

lemma plain_rules_compile:
  assumes "list_all readable rs" "status_ok D 403"
  shows "\<exists>ds. map read_rule (map plain_rule rs) = map Some ds \<and>
    (\<forall>acc resp. compile_rules D R tz ds acc resp = Inr (acc @ map plain_compiled rs, resp))"
  using assms(1)
proof (induction rs)
  case (Cons r rs)
  then obtain ds where ds: "map read_rule (map plain_rule rs) = map Some ds"
    "\<forall>acc resp. compile_rules D R tz ds acc resp = Inr (acc @ map plain_compiled rs, resp)" by auto
  obtain d where "read_rule (plain_rule r) = Some d" "rd_phase d = PhRequest"
    "compile_rule D R tz d = Inr (plain_compiled r)"
    using plain_rule_compiles [where r = r and D = D and tz = tz, OF _ assms(2)] Cons.prems by auto
  with ds show ?case by (intro exI [of _ "d # ds"]) simp
qed simp

lemma plain_oper_not_cidr: "(case plain_oper op a of OCidr n \<Rightarrow> X n | _ \<Rightarrow> Y) = Y"
  by (simp add: plain_oper_def)

lemma plain_compiled_applies:
  assumes "readable r"
  shows "rule_applies D R now ctx st (plain_compiled r) = rule_hits D R now (counters st) ctx r"
proof -
  obtain v op a n where r: "r = (v, op, a, n)" by (cases r)
  with assms obtain f T where f: "secrule_field v = Some f" and t: "secrule_test op = Some T"
    by (auto simp: readable_def)
  show ?thesis
    by (simp add: rule_applies_def plain_compiled_def rule_hits_def r f t matches_request_def plain_oper_not_cidr
        eval_candidates_def secrule_test_maps(2) [OF t])
qed

lemma find_map: "find P (map g xs) = map_option g (find (\<lambda>x. P (g x)) xs)"
  by (induction xs) auto

text \<open>C5: imported rules decide as they read. A file of rules, each of one variable, a comparison with an
  ASCII operand free of quotes, backslashes, macros and line ends, an id and \<open>deny\<close>, imports to rules
  that the rule file's reader and compiler accept, and the compiled rules block a request with 403 under
  the id of the first rule of the file that has a value of its variable passing its test, and decide
  nothing for any other request.\<close>

theorem imported_rules_decide:
  assumes "list_all readable rs" "status_ok D 403" "status_ok D (sc_status sc)"
  shows "\<exists>ds S. map read_rule (ca_rules (convert_run (unlines (map (\<lambda>(v, op, a, n). secrule_text v op a n) rs)))) =
      map Some ds \<and> compile_with_tz D R ds sc tz = Inr S \<and>
    (\<forall>now ctx st. fst (evaluate_inner D R now ctx S st) =
      (case find (rule_hits D R now (counters st) ctx) rs of
         None \<Rightarrow> None
       | Some (v, op, a, n) \<Rightarrow> Some (OutBlock (''crs-'' @ show_nat n) 403 (''crs-'' @ show_nat n))))"
proof -
  have "list_all importable rs" using assms(1) readable_importable by (simp add: list_all_iff)
  then have c: "ca_rules (convert_run (unlines (map (\<lambda>(v, op, a, n). secrule_text v op a n) rs))) = map plain_rule rs"
    by (simp add: convert_plain_rules)
  obtain ds where ds: "map read_rule (map plain_rule rs) = map Some ds"
    "\<forall>acc resp. compile_rules D R tz ds acc resp = Inr (acc @ map plain_compiled rs, resp)"
    using plain_rules_compile [OF assms(1,2)] by blast
  then obtain S where S: "compile_with_tz D R ds sc tz = Inr S" "req_rules S = map plain_compiled rs"
    using assms(3) by (simp add: compile_with_tz_def apply_scoring_def)
  have st: "list_all stateless (map plain_compiled rs)"
    by (auto simp: list_all_iff stateless_def plain_compiled_def)
  have pts: "points (plain_compiled r) = 0" "decision_of (plain_compiled r) =
      (case r of (v, op, a, n) \<Rightarrow> Some (OutBlock (''crs-'' @ show_nat n) 403 (''crs-'' @ show_nat n)))" for r
    by (simp_all add: points_def decision_of_def plain_compiled_def split: prod.split)
  have "fst (evaluate_inner D R now ctx S st) =
      (case find (rule_hits D R now (counters st) ctx) rs of
         None \<Rightarrow> None
       | Some (v, op, a, n) \<Rightarrow> Some (OutBlock (''crs-'' @ show_nat n) 403 (''crs-'' @ show_nat n)))" for now ctx st
  proof -
    obtain d rs' s st' where l: "rules_loop D R now ctx (req_rules S) 0 st = (d, rs', s, st')"
      using prod_cases4 by blast
    note loop = rules_loop_stateless [OF st l [unfolded S(2)]]
    have F: "find (\<lambda>r. rule_applies D R now ctx st (plain_compiled r) \<and> decision_of (plain_compiled r) \<noteq> None) rs =
        find (rule_hits D R now (counters st) ctx) rs"
      using assms(1) plain_compiled_applies [of _ D R now ctx st]
      by (intro find_cong refl) (auto simp: list_all_iff pts(2) split: prod.split)
    have d: "d = (case find (rule_hits D R now (counters st) ctx) rs of
        None \<Rightarrow> None
      | Some (v, op, a, n) \<Rightarrow> Some (OutBlock (''crs-'' @ show_nat n) 403 (''crs-'' @ show_nat n)))"
      using loop unfolding find_map F by (simp add: pts(2) split: option.split)
    have z: "sum_list (map points (filter P (map plain_compiled rs))) = 0" for P
      by (induction rs) (simp_all add: pts)
    have "d = None \<Longrightarrow> s = 0" using loop unfolding z by (simp add: unat_eq_zero)
    with d show ?thesis
      by (auto simp: evaluate_inner_def l pts(2) split: option.split prod.split)
  qed
  with c ds S show ?thesis by auto
qed

definition two_secrules :: "(string \<times> string \<times> string \<times> nat) list" where
  "two_secrules = [(''REQUEST_URI'', ''beginsWith'', ''/admin'', 7), (''ARGS'', ''contains'', ''evil'', 942)]"

theorem imported_rules_decide_witness:
  "\<exists>ds S. map read_rule (ca_rules (convert_run (unlines (map (\<lambda>(v, op, a, n). secrule_text v op a n) two_secrules)))) =
      map Some ds \<and> compile_with_tz inst no_libs ds scoring_config_default 0 = Inr S \<and>
    fst (evaluate_inner inst no_libs 0 (get_request (V4 7) ''/admin/x'' None) S
      \<lparr>log_hits = None, counters = (\<lambda>_. None)\<rparr>) = Some (OutBlock ''crs-7'' 403 ''crs-7'')"
proof -
  have "list_all readable two_secrules"
    by (simp add: two_secrules_def readable_def secrule_field_def secrule_fields_def secrule_test_def) code_simp
  moreover have "status_ok inst 403" "status_ok inst (sc_status scoring_config_default)"
    by (simp_all add: scoring_config_default_def default_anomaly_status_def)
  ultimately obtain ds S where
    ds: "map read_rule (ca_rules (convert_run (unlines (map (\<lambda>(v, op, a, n). secrule_text v op a n) two_secrules)))) =
      map Some ds" "compile_with_tz inst no_libs ds scoring_config_default 0 = Inr S"
    and e: "fst (evaluate_inner inst no_libs 0 (get_request (V4 7) ''/admin/x'' None) S
        \<lparr>log_hits = None, counters = (\<lambda>_. None)\<rparr>) =
      (case find (rule_hits inst no_libs 0 (\<lambda>_. None) (get_request (V4 7) ''/admin/x'' None)) two_secrules of
         None \<Rightarrow> None
       | Some (v, op, a, n) \<Rightarrow> Some (OutBlock (''crs-'' @ show_nat n) 403 (''crs-'' @ show_nat n)))"
    using imported_rules_decide [of two_secrules inst scoring_config_default no_libs 0] by fastforce
  have "find (rule_hits inst no_libs 0 (\<lambda>_. None) (get_request (V4 7) ''/admin/x'' None)) two_secrules =
      Some (''REQUEST_URI'', ''beginsWith'', ''/admin'', 7)"
    by (simp add: two_secrules_def rule_hits_def secrule_field_def secrule_fields_def secrule_test_def
        collect_candidates_def get_request_def)
  with ds e show ?thesis by (auto simp: show_nat_eval)
qed

end
